theory Spec2Isabelle
  imports Complex_Main "HOL-Library.Word" "HOL-Library.AList"
begin

section \<open>Machine numbers\<close>

text \<open>
  \<^verbatim>\<open>uint32_t\<close> and \<^verbatim>\<open>ALuint\<close> are 32-bit words: \<open>+\<close> wraps, which is what
  \<^verbatim>\<open>m_NextAudioKey++\<close> does. An \<^verbatim>\<open>int\<close> argument is a 32-bit word read through \<open>sint\<close>.

  A \<^verbatim>\<open>float\<close> is modelled by the rational number it denotes. Every arithmetic operation
  computes the exact result and rounds it to the nearest IEEE-754 binary32 value, ties to
  even (24 significant bits, least exponent \<open>-126\<close>, below which the spacing stays
  \<open>2 powi -149\<close>). Infinities and NaN are not represented: the model is exact for results
  of magnitude below \<open>2 powi 128\<close> and for divisions by a non-zero divisor, which is all the
  backend computes on the values its own operations store.
\<close>

type_synonym uint32 = "32 word"
type_synonym ALuint = "32 word"
type_synonym f32 = rat

function bit_length :: "int \<Rightarrow> int" where
  "bit_length n = (if n \<le> 0 then 0 else 1 + bit_length (n div 2))"
  by pat_completeness auto
termination
  by (relation "measure nat") auto

declare bit_length.simps [simp del]

definition f32_exponent :: "rat \<Rightarrow> int" where
  "f32_exponent x =
     (let a = fst (quotient_of \<bar>x\<bar>);
          b = snd (quotient_of \<bar>x\<bar>);
          e0 = bit_length a - bit_length b;
          e = (if 2 powi e0 \<le> \<bar>x\<bar> then e0 else e0 - 1)
      in max e (- 126))"

definition round_half_even :: "rat \<Rightarrow> int" where
  "round_half_even y =
     (let f = \<lfloor>y\<rfloor>; d = y - of_int f
      in if d < 1 / 2 then f
         else if 1 / 2 < d then f + 1
         else if even f then f else f + 1)"

definition f32_round :: "rat \<Rightarrow> f32" where
  "f32_round x =
     (if x = 0 then 0
      else let q = 2 powi (f32_exponent x - 23)
           in of_int (round_half_even (x / q)) * q)"

definition f32_of_int :: "int \<Rightarrow> f32" where
  "f32_of_int i = f32_round (of_int i)"

definition f32_add :: "f32 \<Rightarrow> f32 \<Rightarrow> f32" where
  "f32_add x y = f32_round (x + y)"

definition f32_sub :: "f32 \<Rightarrow> f32 \<Rightarrow> f32" where
  "f32_sub x y = f32_round (x - y)"

definition f32_mul :: "f32 \<Rightarrow> f32 \<Rightarrow> f32" where
  "f32_mul x y = f32_round (x * y)"

definition f32_div :: "f32 \<Rightarrow> f32 \<Rightarrow> f32" where
  "f32_div x y = f32_round (x / y)"

text \<open>\<^verbatim>\<open>static_cast<int>\<close> of a float truncates towards zero.\<close>

definition int_of_f32 :: "f32 \<Rightarrow> int" where
  "int_of_f32 x = (if 0 \<le> x then \<lfloor>x\<rfloor> else \<lceil>x\<rceil>)"

text \<open>\<^verbatim>\<open>std::min(a, b)\<close> is \<^verbatim>\<open>(b < a) ? b : a\<close> and \<^verbatim>\<open>std::max(a, b)\<close> is
  \<^verbatim>\<open>(a < b) ? b : a\<close>.\<close>

definition std_min :: "f32 \<Rightarrow> f32 \<Rightarrow> f32" where
  "std_min a b = (if b < a then b else a)"

definition std_max :: "f32 \<Rightarrow> f32 \<Rightarrow> f32" where
  "std_max a b = (if a < b then b else a)"

text \<open>The literals \<^verbatim>\<open>0.016f\<close> and \<^verbatim>\<open>0.1f\<close> denote the binary32 values nearest to them.\<close>

definition f32_0_016 :: f32 where
  "f32_0_016 = 8589935 / 536870912"

definition f32_0_1 :: f32 where
  "f32_0_1 = 13421773 / 134217728"

section \<open>The OpenAL calls the backend makes\<close>

text \<open>
  OpenAL is an external library. Its sources are modelled as a partial map from source
  names to the attributes the backend reads or writes, after the OpenAL 1.1
  specification: a call on a name that is not a source sets an error and changes
  nothing, a query on such a name stores nothing in its result variable, a negative gain
  is refused, and the play, pause, stop and rewind calls move a source between its four
  states. Position, velocity, direction and pitch are not modelled, nor is the sample
  data of a buffer.
\<close>

datatype ALenum_state = AL_INITIAL | AL_PLAYING | AL_PAUSED | AL_STOPPED

record al_source =
  AL_GAIN :: f32
  AL_SOURCE_STATE :: ALenum_state
  AL_LOOPING :: bool
  AL_BUFFER :: ALuint

type_synonym al_sources = "ALuint \<rightharpoonup> al_source"

definition alGenSources :: "ALuint \<Rightarrow> al_sources \<Rightarrow> al_sources" where
  \<comment> \<open>The name is the one the library hands out; \<open>0\<close> stands for a failed call, the case
      the backend tests for.\<close>
  "alGenSources name al =
     (if name = 0 then al
      else al(name \<mapsto> \<lparr>AL_GAIN = 1, AL_SOURCE_STATE = AL_INITIAL,
                         AL_LOOPING = False, AL_BUFFER = 0\<rparr>))"

definition alDeleteSources :: "ALuint \<Rightarrow> al_sources \<Rightarrow> al_sources" where
  "alDeleteSources name al = al(name := None)"

definition alSourcef_GAIN :: "ALuint \<Rightarrow> f32 \<Rightarrow> al_sources \<Rightarrow> al_sources" where
  "alSourcef_GAIN name g al =
     (case al name of
        None \<Rightarrow> al
      | Some x \<Rightarrow> if g < 0 then al else al(name \<mapsto> x\<lparr>AL_GAIN := g\<rparr>))"

definition alSourcei_LOOPING :: "ALuint \<Rightarrow> bool \<Rightarrow> al_sources \<Rightarrow> al_sources" where
  "alSourcei_LOOPING name l al =
     (case al name of None \<Rightarrow> al | Some x \<Rightarrow> al(name \<mapsto> x\<lparr>AL_LOOPING := l\<rparr>))"

definition alSourcei_BUFFER :: "ALuint \<Rightarrow> ALuint \<Rightarrow> al_sources \<Rightarrow> al_sources" where
  "alSourcei_BUFFER name b al =
     (case al name of
        None \<Rightarrow> al
      | Some x \<Rightarrow>
          if AL_SOURCE_STATE x = AL_PLAYING \<or> AL_SOURCE_STATE x = AL_PAUSED then al
          else al(name \<mapsto> x\<lparr>AL_BUFFER := b\<rparr>))"

definition alSourcePlay :: "ALuint \<Rightarrow> al_sources \<Rightarrow> al_sources" where
  "alSourcePlay name al =
     (case al name of
        None \<Rightarrow> al
      | Some x \<Rightarrow> al(name \<mapsto> x\<lparr>AL_SOURCE_STATE := AL_PLAYING\<rparr>))"

definition alSourcePause :: "ALuint \<Rightarrow> al_sources \<Rightarrow> al_sources" where
  "alSourcePause name al =
     (case al name of
        None \<Rightarrow> al
      | Some x \<Rightarrow>
          if AL_SOURCE_STATE x = AL_PLAYING
          then al(name \<mapsto> x\<lparr>AL_SOURCE_STATE := AL_PAUSED\<rparr>) else al)"

definition alSourceStop :: "ALuint \<Rightarrow> al_sources \<Rightarrow> al_sources" where
  "alSourceStop name al =
     (case al name of
        None \<Rightarrow> al
      | Some x \<Rightarrow>
          if AL_SOURCE_STATE x = AL_INITIAL then al
          else al(name \<mapsto> x\<lparr>AL_SOURCE_STATE := AL_STOPPED\<rparr>))"

definition alSourceRewind :: "ALuint \<Rightarrow> al_sources \<Rightarrow> al_sources" where
  "alSourceRewind name al =
     (case al name of
        None \<Rightarrow> al
      | Some x \<Rightarrow> al(name \<mapsto> x\<lparr>AL_SOURCE_STATE := AL_INITIAL\<rparr>))"

definition alGetSourcef_GAIN :: "ALuint \<Rightarrow> al_sources \<Rightarrow> f32 option" where
  "alGetSourcef_GAIN name al = map_option AL_GAIN (al name)"

definition alGetSourcei_STATE :: "ALuint \<Rightarrow> al_sources \<Rightarrow> ALenum_state option" where
  "alGetSourcei_STATE name al = map_option AL_SOURCE_STATE (al name)"

text \<open>A playing source that does not loop stops by itself when its buffer has been
  played to the end. This is the one change of the library's state that no call of the
  backend causes.\<close>

definition playback_ends :: "ALuint \<Rightarrow> al_sources \<Rightarrow> al_sources" where
  "playback_ends name al =
     (case al name of
        None \<Rightarrow> al
      | Some x \<Rightarrow>
          if AL_SOURCE_STATE x = AL_PLAYING \<and> \<not> AL_LOOPING x
          then al(name \<mapsto> x\<lparr>AL_SOURCE_STATE := AL_STOPPED\<rparr>) else al)"

section \<open>IAudio\<close>

datatype EAudioAction =
  kStop | kResume | kPause | kReplay | kRewind | kMute | kUnmute | kLoop | kStopLoop
  | kVolumeUp | kVolumeDown

datatype EAudioFormat =
  kCommand | kWav | kMod | kMidi | kOgg | kMp3 | kFlac | kAiff | kRaw | kOthers

record KeyGenCache =
  path :: string
  key :: uint32

text \<open>
  \<^verbatim>\<open>m_AudioKeyToPath\<close> is an \<^verbatim>\<open>unordered_map\<close> that \<^verbatim>\<open>GenerateAudioKey\<close> iterates, so it is
  an association list: the list order is the iteration order, which C++ leaves open.
  \<^verbatim>\<open>operator[]\<close> overwrites the entry of a key that is present and adds one otherwise.
\<close>

record IAudio =
  m_NextAudioKey :: uint32
  m_AudioKeyToPath :: "(uint32 \<times> string) list"
  m_LastKeyGeneration :: KeyGenCache

definition GenerateAudioKey :: "string \<Rightarrow> 'a IAudio_scheme \<Rightarrow> uint32 \<times> 'a IAudio_scheme" where
  "GenerateAudioKey filepath a =
     (if path (m_LastKeyGeneration a) = filepath then (key (m_LastKeyGeneration a), a)
      else
        case find (\<lambda>pair. snd pair = filepath) (m_AudioKeyToPath a) of
          Some pair \<Rightarrow>
            (fst pair, a\<lparr>m_LastKeyGeneration := \<lparr>path = filepath, key = fst pair\<rparr>\<rparr>)
        | None \<Rightarrow>
            (let newKey = m_NextAudioKey a
             in (newKey,
                 a\<lparr>m_NextAudioKey := newKey + 1,
                   m_AudioKeyToPath := AList.update newKey filepath (m_AudioKeyToPath a),
                   m_LastKeyGeneration := \<lparr>path = filepath, key = newKey\<rparr>\<rparr>)))"


section \<open>OpenALAudio\<close>

record AudioBuffer =
  buffer :: ALuint
  sources :: "ALuint list"

text \<open>
  The state of the backend: the fields of \<^verbatim>\<open>IAudio\<close>, the fields of \<^verbatim>\<open>OpenALAudio\<close>, and
  \<open>openal\<close>, the sources of the OpenAL context the object made current.
  \<^verbatim>\<open>m_AudioBuffers\<close> is an \<^verbatim>\<open>unordered_map\<close> that the backend iterates, so it is an
  association list as well. A callback is the address of a \<^verbatim>\<open>void(*)()\<close>; \<open>None\<close> is
  \<^verbatim>\<open>nullptr\<close>. The device and context pointers are not modelled.
\<close>

type_synonym callback = nat

record OpenALAudio = IAudio +
  openal :: al_sources
  m_AudioBuffers :: "(uint32 \<times> AudioBuffer) list"
  m_CurrentMusicPathKey :: uint32
  m_CurrentMusicSource :: ALuint
  m_Initialized :: bool
  m_MusicVolume :: f32
  m_MusicPaused :: bool
  m_MusicFading :: bool
  m_MusicFinishedCallback :: "callback option"
  m_FadeStartVolume :: f32
  m_FadeTargetVolume :: f32
  m_FadeTimeRemaining :: f32
  m_FadeDuration :: f32

definition OpenALAudio_ctor :: OpenALAudio where
  "OpenALAudio_ctor =
     \<lparr>m_NextAudioKey = 1, m_AudioKeyToPath = [],
      m_LastKeyGeneration = \<lparr>path = [], key = 0\<rparr>,
      openal = Map.empty, m_AudioBuffers = [], m_CurrentMusicPathKey = 0,
      m_CurrentMusicSource = 0, m_Initialized = False, m_MusicVolume = 1,
      m_MusicPaused = False, m_MusicFading = False, m_MusicFinishedCallback = None,
      m_FadeStartVolume = 0, m_FadeTargetVolume = 0, m_FadeTimeRemaining = 0,
      m_FadeDuration = 0\<rparr>"

text \<open>\<^verbatim>\<open>Init\<close> succeeds when the device opens, the context is created and it is made
  current; the new context has no sources.\<close>

definition Init :: "bool \<Rightarrow> OpenALAudio \<Rightarrow> bool \<times> OpenALAudio" where
  "Init device_ok s =
     (if device_ok then (True, s\<lparr>openal := Map.empty, m_Initialized := True\<rparr>)
      else (False, s))"

text \<open>
  What a call meets outside the object: what the decoder finds in the file, the value
  \<^verbatim>\<open>alGetError\<close> returns after \<^verbatim>\<open>alBufferData\<close>, and the names \<^verbatim>\<open>alGenBuffers\<close> and
  \<^verbatim>\<open>alGenSources\<close> hand out.
\<close>

record wav_decode =
  drwav_init_file :: bool
  totalPCMFrameCount :: nat
  framesRead :: nat
  al_no_error :: bool

record play_env =
  decode :: wav_decode
  new_buffer :: ALuint
  new_source :: ALuint

definition LoadWAVFile :: "wav_decode \<Rightarrow> bool" where
  "LoadWAVFile f =
     (if \<not> drwav_init_file f then False
      else if framesRead f = 0 then False
      else if \<not> al_no_error f then False
      else True)"

definition CreateSource :: "ALuint \<Rightarrow> al_sources \<Rightarrow> ALuint \<times> al_sources" where
  "CreateSource name al =
     (name, alSourcei_LOOPING name False (alSourcef_GAIN name 1 (alGenSources name al)))"

definition PlayMusic :: "string \<Rightarrow> play_env \<Rightarrow> OpenALAudio \<Rightarrow> bool \<times> OpenALAudio" where
  "PlayMusic filepath env s =
     (if \<not> m_Initialized s then (False, s)
      else
        let (audioKey, s1) = GenerateAudioKey filepath s;
            s2 = (if m_CurrentMusicSource s1 \<noteq> 0
                  then s1\<lparr>openal := alDeleteSources (m_CurrentMusicSource s1)
                                      (alSourceStop (m_CurrentMusicSource s1) (openal s1)),
                          m_CurrentMusicSource := 0\<rparr>
                  else s1);
            it = (case map_of (m_AudioBuffers s2) audioKey of
                    Some b \<Rightarrow> Some (b, s2)
                  | None \<Rightarrow>
                      if \<not> LoadWAVFile (decode env) then None
                      else
                        let newBuffer = \<lparr>buffer = new_buffer env, sources = []\<rparr>
                        in Some (newBuffer,
                                 s2\<lparr>m_AudioBuffers :=
                                      m_AudioBuffers s2 @ [(audioKey, newBuffer)]\<rparr>))
        in case it of
             None \<Rightarrow> (False, s2)
           | Some (b, s3) \<Rightarrow>
               let (source, al) = CreateSource (new_source env) (openal s3)
               in if source = 0 then (False, s3\<lparr>openal := al\<rparr>)
                  else
                    (True,
                     s3\<lparr>openal :=
                          alSourcePlay source
                            (alSourcef_GAIN source (m_MusicVolume s3)
                               (alSourcei_BUFFER source (buffer b) al)),
                        m_AudioBuffers :=
                          AList.map_entry audioKey (\<lambda>r. r\<lparr>sources := sources r @ [source]\<rparr>)
                            (m_AudioBuffers s3),
                        m_CurrentMusicPathKey := audioKey,
                        m_CurrentMusicSource := source,
                        m_MusicPaused := False,
                        m_MusicFading := False\<rparr>))"

text \<open>
  \<^verbatim>\<open>CleanupFinishedSources\<close> asks OpenAL for the state of every listed source, in order,
  and deletes and unlists the stopped ones. For a name OpenAL does not know the query
  stores nothing and the local \<^verbatim>\<open>state\<close> is uninitialised: \<open>g\<close> says what the comparison
  with \<^verbatim>\<open>AL_STOPPED\<close> yields then.
\<close>

fun remove_if_stopped ::
  "(ALuint \<Rightarrow> bool) \<Rightarrow> ALuint list \<Rightarrow> al_sources \<Rightarrow> ALuint list \<times> al_sources" where
  "remove_if_stopped g [] al = ([], al)"
| "remove_if_stopped g (source # rest) al =
     (if (case alGetSourcei_STATE source al of
            Some st \<Rightarrow> st = AL_STOPPED
          | None \<Rightarrow> g source)
      then remove_if_stopped g rest (alDeleteSources source al)
      else (let (kept, al') = remove_if_stopped g rest al in (source # kept, al')))"

fun cleanup_buffers ::
  "(ALuint \<Rightarrow> bool) \<Rightarrow> (uint32 \<times> AudioBuffer) list \<Rightarrow> al_sources
     \<Rightarrow> (uint32 \<times> AudioBuffer) list \<times> al_sources" where
  "cleanup_buffers g [] al = ([], al)"
| "cleanup_buffers g (pair # rest) al =
     (let (kept, al1) = remove_if_stopped g (sources (snd pair)) al;
          (rest', al2) = cleanup_buffers g rest al1
      in ((fst pair, (snd pair)\<lparr>sources := kept\<rparr>) # rest', al2))"

definition CleanupFinishedSources :: "(ALuint \<Rightarrow> bool) \<Rightarrow> OpenALAudio \<Rightarrow> OpenALAudio" where
  "CleanupFinishedSources g s =
     (let (bufs, al) = cleanup_buffers g (m_AudioBuffers s) (openal s)
      in s\<lparr>openal := al, m_AudioBuffers := bufs\<rparr>)"

definition PlaySoundEffect ::
  "string \<Rightarrow> play_env \<Rightarrow> (ALuint \<Rightarrow> bool) \<Rightarrow> OpenALAudio \<Rightarrow> bool \<times> OpenALAudio" where
  "PlaySoundEffect filepath env g s =
     (if \<not> m_Initialized s then (False, s)
      else
        let (audioKey, s1) = GenerateAudioKey filepath s;
            it = (case map_of (m_AudioBuffers s1) audioKey of
                    Some b \<Rightarrow> Some (b, s1)
                  | None \<Rightarrow>
                      if \<not> LoadWAVFile (decode env) then None
                      else
                        let newBuffer = \<lparr>buffer = new_buffer env, sources = []\<rparr>
                        in Some (newBuffer,
                                 s1\<lparr>m_AudioBuffers :=
                                      m_AudioBuffers s1 @ [(audioKey, newBuffer)]\<rparr>))
        in case it of
             None \<Rightarrow> (False, s1)
           | Some (b, s2) \<Rightarrow>
               let (source, al) = CreateSource (new_source env) (openal s2)
               in if source = 0 then (False, s2\<lparr>openal := al\<rparr>)
                  else
                    (True,
                     CleanupFinishedSources g
                       (s2\<lparr>openal := alSourcePlay source (alSourcei_BUFFER source (buffer b) al),
                           m_AudioBuffers :=
                             AList.map_entry audioKey
                               (\<lambda>r. r\<lparr>sources := sources r @ [source]\<rparr>)
                               (m_AudioBuffers s2)\<rparr>)))"

definition OperateCurrentMusic :: "EAudioAction \<Rightarrow> OpenALAudio \<Rightarrow> OpenALAudio" where
  "OperateCurrentMusic action s =
     (let cur = m_CurrentMusicSource s; al = openal s
      in if cur = 0 then s
         else case action of
           kStop \<Rightarrow> s\<lparr>openal := alSourceStop cur al\<rparr>
         | kPause \<Rightarrow> s\<lparr>openal := alSourcePause cur al, m_MusicPaused := True\<rparr>
         | kResume \<Rightarrow> s\<lparr>openal := alSourcePlay cur al, m_MusicPaused := False\<rparr>
         | kReplay \<Rightarrow> s\<lparr>openal := alSourcePlay cur (alSourceRewind cur al)\<rparr>
         | kLoop \<Rightarrow> s\<lparr>openal := alSourcei_LOOPING cur True al\<rparr>
         | kStopLoop \<Rightarrow> s\<lparr>openal := alSourcei_LOOPING cur False al\<rparr>
         | kMute \<Rightarrow> s\<lparr>openal := alSourcef_GAIN cur 0 al\<rparr>
         | kUnmute \<Rightarrow> s\<lparr>openal := alSourcef_GAIN cur (m_MusicVolume s) al\<rparr>
         | kVolumeUp \<Rightarrow>
             (let v = std_min (f32_add (m_MusicVolume s) f32_0_1) 1
              in s\<lparr>openal := alSourcef_GAIN cur v al, m_MusicVolume := v\<rparr>)
         | kVolumeDown \<Rightarrow>
             (let v = std_max (f32_sub (m_MusicVolume s) f32_0_1) 0
              in s\<lparr>openal := alSourcef_GAIN cur v al, m_MusicVolume := v\<rparr>)
         | kRewind \<Rightarrow> s\<lparr>openal := alSourceRewind cur al\<rparr>)"

text \<open>The body of the \<^verbatim>\<open>switch\<close> of \<^verbatim>\<open>OperateCurrentSounds\<close>, for one source. When the
  gain query fails, the call that follows is on the same unknown name and changes
  nothing.\<close>

definition sound_action :: "EAudioAction \<Rightarrow> ALuint \<Rightarrow> al_sources \<Rightarrow> al_sources" where
  "sound_action action source al =
     (case action of
        kStop \<Rightarrow> alSourceStop source al
      | kPause \<Rightarrow> alSourcePause source al
      | kResume \<Rightarrow> alSourcePlay source al
      | kReplay \<Rightarrow> alSourcePlay source (alSourceRewind source al)
      | kRewind \<Rightarrow> alSourceRewind source al
      | kMute \<Rightarrow> alSourcef_GAIN source 0 al
      | kUnmute \<Rightarrow> alSourcef_GAIN source 1 al
      | kLoop \<Rightarrow> alSourcei_LOOPING source True al
      | kStopLoop \<Rightarrow> alSourcei_LOOPING source False al
      | kVolumeUp \<Rightarrow>
          (case alGetSourcef_GAIN source al of
             None \<Rightarrow> al
           | Some currentVolume \<Rightarrow>
               alSourcef_GAIN source (std_min (f32_add currentVolume f32_0_1) 1) al)
      | kVolumeDown \<Rightarrow>
          (case alGetSourcef_GAIN source al of
             None \<Rightarrow> al
           | Some currentVolume \<Rightarrow>
               alSourcef_GAIN source (std_max (f32_sub currentVolume f32_0_1) 0) al))"

definition all_sources :: "(uint32 \<times> AudioBuffer) list \<Rightarrow> ALuint list" where
  \<comment> \<open>the sources the two nested loops visit, in their order\<close>
  "all_sources bufs = concat (map (\<lambda>pair. sources (snd pair)) bufs)"

definition OperateCurrentSounds ::
  "EAudioAction \<Rightarrow> (ALuint \<Rightarrow> bool) \<Rightarrow> OpenALAudio \<Rightarrow> OpenALAudio" where
  "OperateCurrentSounds action g s =
     (if \<not> m_Initialized s then s
      else
        let s1 = CleanupFinishedSources g s
        in s1\<lparr>openal :=
               fold (\<lambda>source al.
                       if source \<noteq> m_CurrentMusicSource s1 then sound_action action source al
                       else al)
                    (all_sources (m_AudioBuffers s1)) (openal s1)\<rparr>)"

definition SetMusicPosition :: "OpenALAudio \<Rightarrow> OpenALAudio" where
  \<comment> \<open>it writes \<^verbatim>\<open>AL_POSITION\<close> only, which is not part of the modelled state\<close>
  "SetMusicPosition s = s"

definition FadeInMusic ::
  "string \<Rightarrow> 32 word \<Rightarrow> 32 word \<Rightarrow> play_env \<Rightarrow> OpenALAudio \<Rightarrow> OpenALAudio" where
  "FadeInMusic filepath loops ms env s =
     (let (ok, s1) = PlayMusic filepath env s
      in if ok then
           let remaining = f32_div (f32_of_int (sint ms)) 1000;
               cur = m_CurrentMusicSource s1
           in s1\<lparr>openal := alSourcei_LOOPING cur (sint loops = - 1)
                               (alSourcef_GAIN cur 0 (openal s1)),
                  m_MusicFading := True,
                  m_FadeStartVolume := 0,
                  m_FadeTargetVolume := m_MusicVolume s1,
                  m_FadeTimeRemaining := remaining,
                  m_FadeDuration := remaining\<rparr>
         else s1)"

definition FadeOutMusic :: "32 word \<Rightarrow> OpenALAudio \<Rightarrow> OpenALAudio" where
  "FadeOutMusic ms s =
     (if m_CurrentMusicSource s \<noteq> 0 then
        let remaining = f32_div (f32_of_int (sint ms)) 1000
        in s\<lparr>m_MusicFading := True,
              m_FadeStartVolume := m_MusicVolume s,
              m_FadeTargetVolume := 0,
              m_FadeTimeRemaining := remaining,
              m_FadeDuration := remaining\<rparr>
      else s)"

text \<open>\<^verbatim>\<open>UpdateFading\<close> returns, beside the new state, the callback it invoked, if any.
  The callback is foreign code: its own effects are not modelled.\<close>

definition UpdateFading :: "OpenALAudio \<Rightarrow> callback option \<times> OpenALAudio" where
  "UpdateFading s =
     (if \<not> m_MusicFading s \<or> m_CurrentMusicSource s = 0 then (None, s)
      else
        let cur = m_CurrentMusicSource s;
            remaining = f32_sub (m_FadeTimeRemaining s) f32_0_016;
            s1 = s\<lparr>m_FadeTimeRemaining := remaining\<rparr>
        in if remaining \<le> 0 then
             let s2 = s1\<lparr>openal := alSourcef_GAIN cur (m_FadeTargetVolume s1) (openal s1),
                        m_MusicFading := False\<rparr>
             in if m_FadeTargetVolume s2 = 0
                then (m_MusicFinishedCallback s2, s2\<lparr>openal := alSourceStop cur (openal s2)\<rparr>)
                else (None, s2)
           else
             let t = f32_sub 1 (f32_div remaining (m_FadeDuration s1));
                 currentVolume =
                   f32_add (m_FadeStartVolume s1)
                     (f32_mul (f32_sub (m_FadeTargetVolume s1) (m_FadeStartVolume s1)) t)
             in (None, s1\<lparr>openal := alSourcef_GAIN cur currentVolume (openal s1)\<rparr>))"

definition stop_and_delete :: "ALuint list \<Rightarrow> al_sources \<Rightarrow> al_sources" where
  \<comment> \<open>the loop \<^verbatim>\<open>for (ALuint source : it->second.sources)\<close> of the two free operations\<close>
  "stop_and_delete srcs al =
     fold (\<lambda>source al. alDeleteSources source (alSourceStop source al)) srcs al"

definition FreeMusicByKey :: "uint32 \<Rightarrow> OpenALAudio \<Rightarrow> OpenALAudio" where
  "FreeMusicByKey audioKey s =
     (case map_of (m_AudioBuffers s) audioKey of
        None \<Rightarrow> s
      | Some b \<Rightarrow>
          let s1 = s\<lparr>openal := stop_and_delete (sources b) (openal s),
                     m_AudioBuffers := AList.delete audioKey (m_AudioBuffers s),
                     m_AudioKeyToPath := AList.delete audioKey (m_AudioKeyToPath s)\<rparr>
          in if audioKey = m_CurrentMusicPathKey s1
             then s1\<lparr>m_CurrentMusicPathKey := 0, m_CurrentMusicSource := 0\<rparr>
             else s1)"

definition FreeSoundByKey :: "uint32 \<Rightarrow> OpenALAudio \<Rightarrow> OpenALAudio" where
  "FreeSoundByKey audioKey s =
     (case map_of (m_AudioBuffers s) audioKey of
        None \<Rightarrow> s
      | Some b \<Rightarrow>
          s\<lparr>openal := stop_and_delete (sources b) (openal s),
            m_AudioBuffers := AList.delete audioKey (m_AudioBuffers s),
            m_AudioKeyToPath := AList.delete audioKey (m_AudioKeyToPath s)\<rparr>)"

definition normalized_volume :: "32 word \<Rightarrow> f32" where
  \<comment> \<open>\<^verbatim>\<open>std::max(0.0f, std::min(static_cast<float>(volume) / 100.0f, 1.0f))\<close>\<close>
  "normalized_volume volume = std_max 0 (std_min (f32_div (f32_of_int (sint volume)) 100) 1)"

definition SetMusicVolume :: "32 word \<Rightarrow> OpenALAudio \<Rightarrow> OpenALAudio" where
  "SetMusicVolume volume s =
     (let s1 = s\<lparr>m_MusicVolume := normalized_volume volume\<rparr>
      in if m_CurrentMusicSource s1 \<noteq> 0
         then s1\<lparr>openal := alSourcef_GAIN (m_CurrentMusicSource s1) (m_MusicVolume s1) (openal s1)\<rparr>
         else s1)"

definition SetSoundVolume :: "string \<Rightarrow> 32 word \<Rightarrow> OpenALAudio \<Rightarrow> OpenALAudio" where
  "SetSoundVolume filepath volume s =
     (let normalizedVolume = normalized_volume volume;
          (audioKey, s1) = GenerateAudioKey filepath s
      in case map_of (m_AudioBuffers s1) audioKey of
           None \<Rightarrow> s1
         | Some b \<Rightarrow>
             s1\<lparr>openal := fold (\<lambda>source al. alSourcef_GAIN source normalizedVolume al)
                                (sources b) (openal s1)\<rparr>)"

text \<open>The two volume queries and the two state queries read a local that OpenAL fills.
  When the name is not a source the local is uninitialised and the value returned is
  indeterminate: the model returns \<open>None\<close>.\<close>

definition GetMusicVolume :: "OpenALAudio \<Rightarrow> int option" where
  "GetMusicVolume s =
     (if m_CurrentMusicSource s \<noteq> 0
      then map_option (\<lambda>volume. int_of_f32 (f32_mul volume 100))
             (alGetSourcef_GAIN (m_CurrentMusicSource s) (openal s))
      else Some (int_of_f32 (f32_mul (m_MusicVolume s) 100)))"

definition GetSoundVolume :: "string \<Rightarrow> OpenALAudio \<Rightarrow> int option \<times> OpenALAudio" where
  "GetSoundVolume filepath s =
     (let (audioKey, s1) = GenerateAudioKey filepath s
      in case map_of (m_AudioBuffers s1) audioKey of
           None \<Rightarrow> (Some 0, s1)
         | Some b \<Rightarrow>
             (case sources b of
                [] \<Rightarrow> (Some 0, s1)
              | source # _ \<Rightarrow>
                  (map_option (\<lambda>volume. int_of_f32 (f32_mul volume 100))
                     (alGetSourcef_GAIN source (openal s1)), s1)))"

definition GetMaxVolume :: int where
  "GetMaxVolume = 100"

definition SetFinishMusicCallback :: "callback option \<Rightarrow> OpenALAudio \<Rightarrow> OpenALAudio" where
  "SetFinishMusicCallback music_finished s = s\<lparr>m_MusicFinishedCallback := music_finished\<rparr>"

definition IsMusicPlaying :: "OpenALAudio \<Rightarrow> bool option" where
  "IsMusicPlaying s =
     (if m_CurrentMusicSource s = 0 then Some False
      else map_option (\<lambda>st. st = AL_PLAYING)
             (alGetSourcei_STATE (m_CurrentMusicSource s) (openal s)))"


definition IsMusicFading :: "OpenALAudio \<Rightarrow> bool" where
  "IsMusicFading s = m_MusicFading s"

subsection \<open>Format detection\<close>

text \<open>\<^verbatim>\<open>::tolower\<close> in the C locale: the letters \<^verbatim>\<open>A\<close> to \<^verbatim>\<open>Z\<close> move to lower case, every
  other byte stays.\<close>

definition tolower :: "char \<Rightarrow> char" where
  "tolower c =
     (let n = (of_char c :: nat) in if 65 \<le> n \<and> n \<le> 90 then char_of (n + 32) else c)"

fun find_last_of :: "char \<Rightarrow> string \<Rightarrow> nat option" where
  "find_last_of c [] = None"
| "find_last_of c (x # xs) =
     (case find_last_of c xs of
        Some i \<Rightarrow> Some (Suc i)
      | None \<Rightarrow> if x = c then Some 0 else None)"

definition GetMusicType :: "string \<Rightarrow> EAudioFormat" where
  "GetMusicType filepath =
     (let ext = (case find_last_of (CHR ''.'') filepath of
                   Some dotPos \<Rightarrow> map tolower (drop (dotPos + 1) filepath)
                 | None \<Rightarrow> [])
      in if ext = ''wav'' then kWav
         else if ext = ''ogg'' then kOgg
         else if ext = ''mp3'' then kMp3
         else if ext = ''flac'' then kFlac
         else if ext = ''mid'' \<or> ext = ''midi'' then kMidi
         else if ext = ''mod'' then kMod
         else if ext = ''aiff'' then kAiff
         else if ext = ''raw'' then kRaw
         else kOthers)"

section \<open>Sequences of calls\<close>

text \<open>
  A call of the public interface with its arguments and with what it meets outside the
  object, a tick of the fade update, or the end of a source's playback. \<open>step\<close> is
  the state after the call; \<open>generated\<close> is the path and key of the one
  \<^verbatim>\<open>GenerateAudioKey\<close> lookup the call makes, if it makes one.
\<close>

datatype call =
    Call_Init bool
  | Call_PlayMusic string play_env
  | Call_PlaySoundEffect string play_env "ALuint \<Rightarrow> bool"
  | Call_OperateCurrentMusic EAudioAction
  | Call_OperateCurrentSounds EAudioAction "ALuint \<Rightarrow> bool"
  | Call_FadeInMusic string "32 word" "32 word" play_env
  | Call_FadeOutMusic "32 word"
  | Call_UpdateFading
  | Call_FreeMusicByKey uint32
  | Call_FreeSoundByKey uint32
  | Call_SetMusicVolume "32 word"
  | Call_SetSoundVolume string "32 word"
  | Call_GetMusicVolume
  | Call_GetSoundVolume string
  | Call_GetMaxVolume
  | Call_SetMusicPosition
  | Call_SetFinishMusicCallback "callback option"
  | Call_GetMusicType string
  | Call_IsMusicPlaying
  | Call_IsMusicPaused
  | Call_IsMusicFading
  | Playback_Ends ALuint

fun step :: "call \<Rightarrow> OpenALAudio \<Rightarrow> OpenALAudio" where
  "step (Call_Init device_ok) s = snd (Init device_ok s)"
| "step (Call_PlayMusic filepath env) s = snd (PlayMusic filepath env s)"
| "step (Call_PlaySoundEffect filepath env g) s = snd (PlaySoundEffect filepath env g s)"
| "step (Call_OperateCurrentMusic action) s = OperateCurrentMusic action s"
| "step (Call_OperateCurrentSounds action g) s = OperateCurrentSounds action g s"
| "step (Call_FadeInMusic filepath loops ms env) s = FadeInMusic filepath loops ms env s"
| "step (Call_FadeOutMusic ms) s = FadeOutMusic ms s"
| "step Call_UpdateFading s = snd (UpdateFading s)"
| "step (Call_FreeMusicByKey audioKey) s = FreeMusicByKey audioKey s"
| "step (Call_FreeSoundByKey audioKey) s = FreeSoundByKey audioKey s"
| "step (Call_SetMusicVolume volume) s = SetMusicVolume volume s"
| "step (Call_SetSoundVolume filepath volume) s = SetSoundVolume filepath volume s"
| "step Call_GetMusicVolume s = s"
| "step (Call_GetSoundVolume filepath) s = snd (GetSoundVolume filepath s)"
| "step Call_GetMaxVolume s = s"
| "step Call_SetMusicPosition s = SetMusicPosition s"
| "step (Call_SetFinishMusicCallback music_finished) s = SetFinishMusicCallback music_finished s"
| "step (Call_GetMusicType filepath) s = s"
| "step Call_IsMusicPlaying s = s"
| "step Call_IsMusicPaused s = s"
| "step Call_IsMusicFading s = s"
| "step (Playback_Ends source) s = s\<lparr>openal := playback_ends source (openal s)\<rparr>"

fun generated :: "call \<Rightarrow> OpenALAudio \<Rightarrow> (string \<times> uint32) option" where
  "generated (Call_PlayMusic filepath env) s =
     (if m_Initialized s then Some (filepath, fst (GenerateAudioKey filepath s)) else None)"
| "generated (Call_PlaySoundEffect filepath env g) s =
     (if m_Initialized s then Some (filepath, fst (GenerateAudioKey filepath s)) else None)"
| "generated (Call_FadeInMusic filepath loops ms env) s =
     (if m_Initialized s then Some (filepath, fst (GenerateAudioKey filepath s)) else None)"
| "generated (Call_SetSoundVolume filepath volume) s =
     Some (filepath, fst (GenerateAudioKey filepath s))"
| "generated (Call_GetSoundVolume filepath) s =
     Some (filepath, fst (GenerateAudioKey filepath s))"
| "generated _ s = None"

fun run :: "call list \<Rightarrow> OpenALAudio \<Rightarrow> OpenALAudio" where
  "run [] s = s"
| "run (c # cs) s = run cs (step c s)"

fun key_log :: "call list \<Rightarrow> OpenALAudio \<Rightarrow> (string \<times> uint32) list" where
  "key_log [] s = []"
| "key_log (c # cs) s =
     (case generated c s of Some pk \<Rightarrow> [pk] | None \<Rightarrow> []) @ key_log cs (step c s)"

definition frees :: "uint32 \<Rightarrow> call list \<Rightarrow> bool" where
  \<comment> \<open>the sequence holds a call that frees this key\<close>
  "frees audioKey cs \<longleftrightarrow>
     Call_FreeMusicByKey audioKey \<in> set cs \<or> Call_FreeSoundByKey audioKey \<in> set cs"


subsection \<open>Consistency of the key table\<close>

text \<open>
  What every state reached from the constructor satisfies until the key counter wraps:
  the key table has one entry per key and per path, the cached pair agrees with the
  table on its path, and every key in the table, in the cache or in the buffer map is
  below the counter.
\<close>

definition table_ok :: "OpenALAudio \<Rightarrow> bool" where
  "table_ok s \<longleftrightarrow>
     distinct (map fst (m_AudioKeyToPath s)) \<and>
     distinct (map snd (m_AudioKeyToPath s)) \<and>
     distinct (map fst (m_AudioBuffers s)) \<and>
     (\<forall>k. (k, path (m_LastKeyGeneration s)) \<in> set (m_AudioKeyToPath s)
          \<longrightarrow> k = key (m_LastKeyGeneration s)) \<and>
     (\<forall>k \<in> fst ` set (m_AudioKeyToPath s). k < m_NextAudioKey s) \<and>
     (\<forall>k \<in> fst ` set (m_AudioBuffers s). k < m_NextAudioKey s) \<and>
     key (m_LastKeyGeneration s) < m_NextAudioKey s"

text \<open>
  How the pairs of path and key that lookups have returned so far (\<open>A\<close>) relate to the
  state: every entry of the table and the cached pair are among them, all their keys are
  below the counter, no key belongs to two paths, and every pair with a non-empty path
  whose key no call has freed (\<open>freed\<close>) is still in the table.
\<close>

definition log_ok :: "(uint32 \<Rightarrow> bool) \<Rightarrow> (string \<times> uint32) set \<Rightarrow> OpenALAudio \<Rightarrow> bool" where
  "log_ok freed A s \<longleftrightarrow>
     (\<forall>k q. (k, q) \<in> set (m_AudioKeyToPath s) \<longrightarrow> (q, k) \<in> A) \<and>
     (path (m_LastKeyGeneration s), key (m_LastKeyGeneration s)) \<in> A \<and>
     (\<forall>q k. (q, k) \<in> A \<longrightarrow> k < m_NextAudioKey s) \<and>
     (\<forall>q q' k. (q, k) \<in> A \<and> (q', k) \<in> A \<longrightarrow> q = q') \<and>
     (\<forall>q k. (q, k) \<in> A \<and> q \<noteq> [] \<and> \<not> freed k \<longrightarrow> (k, q) \<in> set (m_AudioKeyToPath s))"

section \<open>Example states\<close>

text \<open>Concrete files and states the theorems below are instantiated at: a file that
  decodes, a file that cannot be opened, the backend after a successful \<^verbatim>\<open>Init\<close>, the
  backend playing \<^verbatim>\<open>a.wav\<close> as music on source 1, and the backend with one sound effect
  on source 5 that has been muted.\<close>

definition readable_wav :: wav_decode where
  "readable_wav =
     \<lparr>drwav_init_file = True, totalPCMFrameCount = 1000, framesRead = 1000,
      al_no_error = True\<rparr>"

definition unreadable_wav :: wav_decode where
  "unreadable_wav =
     \<lparr>drwav_init_file = False, totalPCMFrameCount = 0, framesRead = 0, al_no_error = True\<rparr>"

definition initialized :: OpenALAudio where
  "initialized = snd (Init True OpenALAudio_ctor)"

definition music_playing :: OpenALAudio where
  "music_playing =
     snd (PlayMusic ''a.wav'' \<lparr>decode = readable_wav, new_buffer = 1, new_source = 1\<rparr>
            initialized)"

definition sound_muted :: OpenALAudio where
  "sound_muted =
     OperateCurrentSounds kMute (\<lambda>_. False)
       (snd (PlaySoundEffect ''shot.wav''
               \<lparr>decode = readable_wav, new_buffer = 1, new_source = 5\<rparr> (\<lambda>_. False)
               initialized))"

text \<open>Lookups of \<open>n\<close> paths of pairwise different lengths: \<^verbatim>\<open>a\<close>, \<^verbatim>\<open>aa\<close>, \<^verbatim>\<open>aaa\<close> and
  so on.\<close>

definition lookups :: "nat \<Rightarrow> call list" where
  "lookups n = map (\<lambda>i. Call_GetSoundVolume (replicate i (CHR ''a''))) [1..<Suc n]"

definition wrap_count :: nat where
  "wrap_count = 2 ^ 32 + 1"

text \<open>Two short sessions: one frees the key of \<^verbatim>\<open>a.wav\<close> and looks the path up again after
  another lookup; the other frees the key of \<^verbatim>\<open>b.wav\<close> only.\<close>

definition replay_after_free :: "call list" where
  "replay_after_free =
     [Call_Init True,
      Call_PlayMusic ''a.wav'' \<lparr>decode = readable_wav, new_buffer = 1, new_source = 1\<rparr>,
      Call_FreeMusicByKey 1,
      Call_GetSoundVolume ''b.wav'',
      Call_GetSoundVolume ''a.wav'']"

definition free_other_key :: "call list" where
  "free_other_key =
     [Call_Init True,
      Call_PlayMusic ''a.wav'' \<lparr>decode = readable_wav, new_buffer = 1, new_source = 1\<rparr>,
      Call_PlaySoundEffect ''b.wav'' \<lparr>decode = readable_wav, new_buffer = 2, new_source = 2\<rparr>
        (\<lambda>_. False),
      Call_FreeSoundByKey 2,
      Call_GetSoundVolume ''a.wav'',
      Call_GetSoundVolume ''b.wav'']"


definition music_ended :: "call list" where
  "music_ended =
     [Call_Init True,
      Call_PlayMusic ''a.wav'' \<lparr>decode = readable_wav, new_buffer = 1, new_source = 1\<rparr>,
      Playback_Ends 1,
      Call_PlaySoundEffect ''b.wav'' \<lparr>decode = readable_wav, new_buffer = 2, new_source = 2\<rparr>
        (\<lambda>_. False)]"


text \<open>Lookups of the empty path before and after a lookup of another path.\<close>

definition empty_path_lookups :: "call list" where
  "empty_path_lookups =
     [Call_GetSoundVolume [], Call_GetSoundVolume ''b.wav'', Call_GetSoundVolume []]"




section \<open>Properties of format detection\<close>

lemma find_last_of_None: "c \<notin> set xs \<Longrightarrow> find_last_of c xs = None"
  by (induction xs) auto

lemma find_last_of_append:
  "c \<notin> set e \<Longrightarrow> find_last_of c (base @ c # e) = Some (length base)"
  by (induction base) (simp_all add: find_last_of_None)

lemma extension_after_last_dot:
  assumes "CHR ''.'' \<notin> set e"
  shows "(case find_last_of (CHR ''.'') (base @ CHR ''.'' # e) of
            Some dotPos \<Rightarrow> map tolower (drop (dotPos + 1) (base @ CHR ''.'' # e))
          | None \<Rightarrow> []) = map tolower e"
  using assms by (simp add: find_last_of_append)

lemma GetMusicType_extension_only:
  assumes "CHR ''.'' \<notin> set e" "CHR ''.'' \<notin> set e'" "map tolower e = map tolower e'"
  shows "GetMusicType (base @ CHR ''.'' # e) = GetMusicType (base' @ CHR ''.'' # e')"
  unfolding GetMusicType_def extension_after_last_dot[OF assms(1)]
    extension_after_last_dot[OF assms(2)] assms(3) ..

lemma GetMusicType_unrecognised:
  assumes "CHR ''.'' \<notin> set e"
    and "map tolower e \<notin>
      {''wav'', ''ogg'', ''mp3'', ''flac'', ''mid'', ''midi'', ''mod'', ''aiff'', ''raw''}"
  shows "GetMusicType (base @ CHR ''.'' # e) = kOthers"
proof -
  have ne: "map tolower e \<noteq> ''wav''" "map tolower e \<noteq> ''ogg''" "map tolower e \<noteq> ''mp3''"
    "map tolower e \<noteq> ''flac''" "map tolower e \<noteq> ''mid''" "map tolower e \<noteq> ''midi''"
    "map tolower e \<noteq> ''mod''" "map tolower e \<noteq> ''aiff''" "map tolower e \<noteq> ''raw''"
    using assms(2) by (simp_all only: insert_iff empty_iff de_Morgan_disj simp_thms)
  show ?thesis
    unfolding GetMusicType_def extension_after_last_dot[OF assms(1)] Let_def
    by (simp only: ne if_False simp_thms)
qed

text \<open>
  Claim C7. \<^verbatim>\<open>GetMusicType\<close> returns \<^verbatim>\<open>kWav\<close> for \<^verbatim>\<open>song.WAV\<close>, \<^verbatim>\<open>kMp3\<close> for \<^verbatim>\<open>track.mp3\<close> and
  \<^verbatim>\<open>kOthers\<close> for \<^verbatim>\<open>track.xyz\<close>. The result depends on the text after the last dot only,
  and on that text up to the case of its letters: two paths whose extensions agree
  after lower-casing have the same format, whatever stands before the dot. An extension
  that is none of the nine recognised ones, and a path with no dot, give \<^verbatim>\<open>kOthers\<close>.
\<close>

theorem GetMusicType_by_extension:
  "GetMusicType ''song.WAV'' = kWav \<and> GetMusicType ''track.mp3'' = kMp3 \<and>
   GetMusicType ''track.xyz'' = kOthers \<and>
   (\<forall>base base' e e'.
      CHR ''.'' \<notin> set e \<and> CHR ''.'' \<notin> set e' \<and> map tolower e = map tolower e'
      \<longrightarrow> GetMusicType (base @ CHR ''.'' # e) = GetMusicType (base' @ CHR ''.'' # e')) \<and>
   (\<forall>base e.
      CHR ''.'' \<notin> set e \<and>
      map tolower e \<notin>
        {''wav'', ''ogg'', ''mp3'', ''flac'', ''mid'', ''midi'', ''mod'', ''aiff'', ''raw''}
      \<longrightarrow> GetMusicType (base @ CHR ''.'' # e) = kOthers) \<and>
   (\<forall>filepath. CHR ''.'' \<notin> set filepath \<longrightarrow> GetMusicType filepath = kOthers)"
proof (intro conjI allI impI)
  show "GetMusicType ''song.WAV'' = kWav" by code_simp
  show "GetMusicType ''track.mp3'' = kMp3" by code_simp
  show "GetMusicType ''track.xyz'' = kOthers" by code_simp
next
  fix base base' e e'
  assume "CHR ''.'' \<notin> set e \<and> CHR ''.'' \<notin> set e' \<and> map tolower e = map tolower e'"
  then show "GetMusicType (base @ CHR ''.'' # e) = GetMusicType (base' @ CHR ''.'' # e')"
    using GetMusicType_extension_only by blast
next
  fix base e
  assume "CHR ''.'' \<notin> set e \<and>
      map tolower e \<notin>
        {''wav'', ''ogg'', ''mp3'', ''flac'', ''mid'', ''midi'', ''mod'', ''aiff'', ''raw''}"
  then show "GetMusicType (base @ CHR ''.'' # e) = kOthers"
    using GetMusicType_unrecognised by blast
next
  fix filepath :: string
  assume "CHR ''.'' \<notin> set filepath"
  then show "GetMusicType filepath = kOthers"
    by (simp add: GetMusicType_def find_last_of_None)
qed

theorem GetMusicType_by_extension_witness:
  "CHR ''.'' \<notin> set ''Mp3'' \<and> CHR ''.'' \<notin> set ''mP3'' \<and>
   map tolower ''Mp3'' = map tolower ''mP3'' \<and>
   GetMusicType (''a/b'' @ CHR ''.'' # ''Mp3'') = GetMusicType (''c'' @ CHR ''.'' # ''mP3'') \<and>
   map tolower ''xyz'' \<notin>
     {''wav'', ''ogg'', ''mp3'', ''flac'', ''mid'', ''midi'', ''mod'', ''aiff'', ''raw''} \<and>
   GetMusicType (''track'' @ CHR ''.'' # ''xyz'') = kOthers \<and>
   CHR ''.'' \<notin> set ''README'' \<and> GetMusicType ''README'' = kOthers"
proof -
  have a: "CHR ''.'' \<notin> set ''Mp3'' \<and> CHR ''.'' \<notin> set ''mP3'' \<and>
      map tolower ''Mp3'' = map tolower ''mP3''"
    by code_simp
  have b: "CHR ''.'' \<notin> set ''xyz'' \<and>
      map tolower ''xyz'' \<notin>
        {''wav'', ''ogg'', ''mp3'', ''flac'', ''mid'', ''midi'', ''mod'', ''aiff'', ''raw''}"
    by code_simp
  have c: "CHR ''.'' \<notin> set ''README''" by simp
  note r = GetMusicType_by_extension[THEN conjunct2, THEN conjunct2, THEN conjunct2]
  note g1 = r[THEN conjunct1, rule_format, OF a]
  note g2 = r[THEN conjunct2, THEN conjunct1, rule_format, OF b]
  note g3 = r[THEN conjunct2, THEN conjunct2, rule_format, OF c]
  from a b c g1[of "''a/b''" "''c''"] g2[of "''track''"] g3 show ?thesis
    by (intro conjI) (elim conjE, assumption)+
qed

section \<open>Fading\<close>

text \<open>
  Claim C10. When there is no current music instance (\<^verbatim>\<open>m_CurrentMusicSource\<close> is 0),
  \<^verbatim>\<open>FadeOutMusic\<close> changes nothing at all, whatever the duration, so \<^verbatim>\<open>IsMusicFading\<close>
  answers after the call what it answered before.
\<close>

theorem FadeOutMusic_without_music:
  "m_CurrentMusicSource s = 0 \<Longrightarrow>
     FadeOutMusic ms s = s \<and> (IsMusicFading (FadeOutMusic ms s) \<longleftrightarrow> IsMusicFading s)"
  by (simp add: FadeOutMusic_def)

theorem FadeOutMusic_without_music_witness:
  "m_CurrentMusicSource OpenALAudio_ctor = 0 \<and>
   FadeOutMusic 500 OpenALAudio_ctor = OpenALAudio_ctor \<and>
   \<not> IsMusicFading (FadeOutMusic 500 OpenALAudio_ctor)"
  using FadeOutMusic_without_music[of OpenALAudio_ctor 500]
  by (simp add: OpenALAudio_ctor_def IsMusicFading_def)

section \<open>Rounding to binary32\<close>

lemma bit_length_nonneg: "0 \<le> bit_length n"
proof (induction n rule: bit_length.induct)
  case (1 n)
  then show ?case by (subst bit_length.simps) simp
qed

lemma bit_length_bounds:
  "0 < n \<Longrightarrow> (2::int) ^ nat (bit_length n - 1) \<le> n \<and> n < 2 ^ nat (bit_length n)"
proof (induction n rule: bit_length.induct)
  case (1 n)
  have step: "bit_length n = 1 + bit_length (n div 2)"
    using "1.prems" by (subst bit_length.simps) simp
  show ?case
  proof (cases "n div 2 = 0")
    case True
    then have n1: "n = 1" using "1.prems" by presburger
    have "bit_length (n div 2) = 0" using True by (subst bit_length.simps) simp
    with step n1 show ?thesis by simp
  next
    case False
    then have pos: "0 < n div 2" using "1.prems" by presburger
    let ?b = "bit_length (n div 2)"
    from "1.IH"[OF _ pos] "1.prems"
    have lo: "2 ^ nat (?b - 1) \<le> n div 2" and hi: "n div 2 < 2 ^ nat ?b" by simp_all
    have b1: "1 \<le> ?b"
    proof (rule ccontr)
      assume "\<not> 1 \<le> ?b"
      with bit_length_nonneg[of "n div 2"] have "?b = 0" by simp
      with hi pos show False by simp
    qed
    then have nb: "nat ?b = Suc (nat (?b - 1))" by simp
    have "2 ^ nat ?b = 2 * (2::int) ^ nat (?b - 1)" by (subst nb) simp
    also have "\<dots> \<le> 2 * (n div 2)" using lo by simp
    also have "\<dots> \<le> n" by presburger
    finally have A: "2 ^ nat (bit_length n - 1) \<le> n" using step by simp
    have "n < 2 * (n div 2 + 1)" by presburger
    also have "\<dots> \<le> 2 * 2 ^ nat ?b" using hi by simp
    also have "\<dots> = 2 ^ nat (bit_length n)" using step b1 by (simp add: nat_add_distrib)
    finally show ?thesis using A by simp
  qed
qed

lemma bit_length_powi:
  assumes "0 < n"
  shows "(2::rat) powi (bit_length n - 1) \<le> of_int n" and "of_int n < (2::rat) powi (bit_length n)"
proof -
  from bit_length_bounds[OF assms]
  have lo: "(2::int) ^ nat (bit_length n - 1) \<le> n" and hi: "n < 2 ^ nat (bit_length n)" by simp_all
  have b1: "1 \<le> bit_length n"
  proof (rule ccontr)
    assume "\<not> 1 \<le> bit_length n"
    with bit_length_nonneg[of n] have "bit_length n = 0" by simp
    with hi assms show False by simp
  qed
  have "(2::rat) powi (bit_length n - 1) = of_int (2 ^ nat (bit_length n - 1))"
    using b1 by (simp add: power_int_def)
  also have "\<dots> \<le> of_int n" using lo by (simp only: of_int_le_iff)
  finally show "(2::rat) powi (bit_length n - 1) \<le> of_int n" .
  have "(of_int n :: rat) < of_int (2 ^ nat (bit_length n))" using hi by (simp only: of_int_less_iff)
  also have "\<dots> = 2 powi (bit_length n)" using b1 by (simp add: power_int_def)
  finally show "of_int n < (2::rat) powi (bit_length n)" .
qed

lemma f32_exponent_bounds:
  assumes "x \<noteq> 0"
  shows "- 126 \<le> f32_exponent x"
    and "\<bar>x\<bar> < 2 powi (f32_exponent x + 1)"
    and "2 powi (f32_exponent x) \<le> \<bar>x\<bar> \<or> f32_exponent x = - 126"
proof -
  obtain a b where q: "quotient_of \<bar>x\<bar> = (a, b)" by (cases "quotient_of \<bar>x\<bar>")
  then have bpos: "0 < b" by (rule quotient_of_denom_pos)
  have xab: "\<bar>x\<bar> = of_int a / of_int b" using q by (rule quotient_of_div)
  have xpos: "0 < \<bar>x\<bar>" using assms by simp
  have apos: "0 < a"
  proof (rule ccontr)
    assume "\<not> 0 < a"
    then have "of_int a / (of_int b :: rat) \<le> 0" using bpos by (simp add: divide_nonpos_pos)
    with xab xpos show False by simp
  qed
  let ?d = "bit_length a - bit_length b"
  let ?e = "if 2 powi ?d \<le> \<bar>x\<bar> then ?d else ?d - 1"
  have fe: "f32_exponent x = max ?e (- 126)"
    by (simp add: f32_exponent_def q Let_def)
  note ba = bit_length_powi[OF apos] and bb = bit_length_powi[OF bpos]
  have rb: "(0::rat) < of_int b" using bpos by simp
  have up: "\<bar>x\<bar> < 2 powi (?d + 1)"
  proof -
    have "of_int a < (2::rat) powi (bit_length a)" by (rule ba(2))
    also have "\<dots> = 2 powi (?d + 1) * 2 powi (bit_length b - 1)"
      by (simp add: power_int_add[symmetric])
    also have "\<dots> \<le> 2 powi (?d + 1) * of_int b"
      using bb(1) by (intro mult_left_mono) simp_all
    finally show ?thesis using rb by (simp add: xab pos_divide_less_eq)
  qed
  have low: "2 powi (?d - 1) \<le> \<bar>x\<bar>"
  proof -
    have "2 powi (?d - 1) * of_int b \<le> 2 powi (?d - 1) * (2::rat) powi (bit_length b)"
      using bb(2) by (intro mult_left_mono) simp_all
    also have "\<dots> = 2 powi (bit_length a - 1)"
      by (simp add: power_int_add[symmetric])
    also have "\<dots> \<le> of_int a" by (rule ba(1))
    finally show ?thesis using rb by (simp add: xab pos_le_divide_eq)
  qed
  have eb: "2 powi ?e \<le> \<bar>x\<bar> \<and> \<bar>x\<bar> < 2 powi (?e + 1)"
    using up low by (auto simp: not_le)
  show "- 126 \<le> f32_exponent x" by (simp add: fe)
  have "2 powi (?e + 1) \<le> (2::rat) powi (max ?e (- 126) + 1)"
    by (intro power_int_increasing) simp_all
  with eb show "\<bar>x\<bar> < 2 powi (f32_exponent x + 1)" by (simp only: fe) linarith
  show "2 powi (f32_exponent x) \<le> \<bar>x\<bar> \<or> f32_exponent x = - 126"
    using eb unfolding fe by (cases "- 126 \<le> ?e") (simp_all add: max_def)
qed

lemma round_half_even_ge: "of_int n \<le> y \<Longrightarrow> n \<le> round_half_even y"
  by (auto simp: round_half_even_def Let_def le_floor_iff intro: order_trans[of _ "\<lfloor>y\<rfloor>"])

lemma round_half_even_le: "y \<le> of_int n \<Longrightarrow> round_half_even y \<le> n"
proof -
  assume a: "y \<le> of_int n"
  have fl: "\<lfloor>y\<rfloor> \<le> n" using a by (simp add: floor_le_iff)
  show ?thesis
  proof (cases "\<lfloor>y\<rfloor> = n")
    case True
    then have "y = of_int n" using a of_int_floor_le[of y] by linarith
    then show ?thesis by (simp add: round_half_even_def)
  next
    case False
    with fl have "\<lfloor>y\<rfloor> + 1 \<le> n" by simp
    then show ?thesis using fl by (auto simp: round_half_even_def Let_def)
  qed
qed

lemma f32_round_nonpos: "x \<le> 0 \<Longrightarrow> f32_round x \<le> 0"
proof -
  assume a: "x \<le> 0"
  have "round_half_even (x / 2 powi (f32_exponent x - 23)) \<le> 0"
    using a by (intro round_half_even_le) (simp add: divide_nonpos_pos)
  then have "(of_int (round_half_even (x / 2 powi (f32_exponent x - 23))) :: rat) \<le> 0" by simp
  then show ?thesis
    by (simp add: f32_round_def Let_def mult_nonpos_nonneg)
qed

lemma f32_round_ge_power:
  assumes "2 powi E \<le> x" and "- 126 \<le> E"
  shows "2 powi E \<le> f32_round x"
proof -
  have xpos: "0 < x" using assms(1) by (rule less_le_trans[rotated]) simp
  then have x0: "x \<noteq> 0" and ax: "\<bar>x\<bar> = x" by simp_all
  let ?e = "f32_exponent x"
  note eb = f32_exponent_bounds[OF x0, unfolded ax]
  have "2 powi E < (2::rat) powi (?e + 1)" using assms(1) eb(2) by simp
  have Ee: "E \<le> ?e"
  proof (rule ccontr)
    assume "\<not> E \<le> ?e"
    then have "?e + 1 \<le> E" by simp
    then have "(2::rat) powi (?e + 1) \<le> 2 powi E" by (intro power_int_increasing) simp_all
    with \<open>2 powi E < (2::rat) powi (?e + 1)\<close> show False by simp
  qed
  have lo: "2 powi ?e \<le> x"
  proof (cases "?e = - 126")
    case True
    with Ee assms(2) have "E = ?e" by simp
    then show ?thesis using assms(1) by simp
  next
    case False
    then show ?thesis using eb(3) by simp
  qed
  let ?q = "(2::rat) powi (?e - 23)"
  have qpos: "0 < ?q" by simp
  have "of_int (2 ^ 23) = (2::rat) powi ?e / ?q"
    by (simp add: power_int_diff)
  also have "\<dots> \<le> x / ?q" using lo qpos by (simp add: divide_right_mono)
  finally have "2 ^ 23 \<le> round_half_even (x / ?q)" by (rule round_half_even_ge)
  then have r: "(of_int (2 ^ 23) :: rat) \<le> of_int (round_half_even (x / ?q))"
    by (simp only: of_int_le_iff)
  have "2 powi E \<le> (2::rat) powi ?e" using Ee by (intro power_int_increasing) simp_all
  also have "\<dots> = of_int (2 ^ 23) * ?q" by (simp add: power_int_diff)
  also have "\<dots> \<le> of_int (round_half_even (x / ?q)) * ?q"
    using r qpos by (intro mult_right_mono) simp_all
  also have "\<dots> = f32_round x" using x0 by (simp add: f32_round_def Let_def)
  finally show ?thesis .
qed

lemma round_half_even_error: "\<bar>of_int (round_half_even y) - y\<bar> \<le> 1 / 2"
proof -
  have "of_int \<lfloor>y\<rfloor> \<le> y" "y < of_int \<lfloor>y\<rfloor> + 1" by linarith+
  then show ?thesis by (auto simp: round_half_even_def Let_def abs_le_iff)
qed

lemma round_half_even_eval: "\<bar>y - of_int n\<bar> < 1 / 2 \<Longrightarrow> round_half_even y = n"
proof -
  assume a: "\<bar>y - of_int n\<bar> < 1 / 2"
  have "\<bar>(of_int (round_half_even y) :: rat) - of_int n\<bar> < 1"
    using round_half_even_error[of y] a by linarith
  then have "\<bar>(of_int (round_half_even y - n) :: rat)\<bar> < 1" by simp
  then have "\<bar>round_half_even y - n\<bar> < 1" by (simp only: of_int_abs[symmetric] of_int_less_1_iff) 
  then show ?thesis by simp
qed

lemma f32_exponent_unique:
  assumes "2 powi e \<le> \<bar>x\<bar>" and "\<bar>x\<bar> < 2 powi (e + 1)" and "- 126 \<le> e"
  shows "f32_exponent x = e"
proof -
  have x0: "x \<noteq> 0"
  proof
    assume "x = 0"
    with assms(1) have "(2::rat) powi e \<le> 0" by simp
    moreover have "0 < (2::rat) powi e" by simp
    ultimately show False by linarith
  qed
  note b = f32_exponent_bounds[OF x0]
  let ?f = "f32_exponent x"
  have 1: "e \<le> ?f"
  proof (rule ccontr)
    assume "\<not> e \<le> ?f"
    then have "?f + 1 \<le> e" by simp
    then have "(2::rat) powi (?f + 1) \<le> 2 powi e" by (intro power_int_increasing) simp_all
    with assms(1) b(2) show False by linarith
  qed
  have 2: "?f \<le> e"
  proof (rule ccontr)
    assume n: "\<not> ?f \<le> e"
    then have "e + 1 \<le> ?f" by simp
    then have "(2::rat) powi (e + 1) \<le> 2 powi ?f" by (intro power_int_increasing) simp_all
    moreover have "2 powi ?f \<le> \<bar>x\<bar>" using b(3) n assms(3) by auto
    ultimately show False using assms(2) by linarith
  qed
  from 1 2 show ?thesis by simp
qed

lemma f32_round_eval:
  assumes "2 powi e \<le> \<bar>x\<bar>" and "\<bar>x\<bar> < 2 powi (e + 1)" and "- 126 \<le> e"
    and "\<bar>x / 2 powi (e - 23) - of_int n\<bar> < 1 / 2"
  shows "f32_round x = of_int n * 2 powi (e - 23)"
proof -
  have x0: "x \<noteq> 0"
  proof
    assume "x = 0"
    with assms(1) have "(2::rat) powi e \<le> 0" by simp
    moreover have "0 < (2::rat) powi e" by simp
    ultimately show False by linarith
  qed
  show ?thesis
    using x0 by (simp add: f32_round_def Let_def f32_exponent_unique[OF assms(1-3)]
        round_half_even_eval[OF assms(4)])
qed

lemma f32_round_error:
  assumes "x \<noteq> 0"
  shows "\<bar>f32_round x - x\<bar> \<le> 2 powi (f32_exponent x - 24)"
proof -
  let ?q = "(2::rat) powi (f32_exponent x - 23)"
  have qpos: "0 < ?q" by simp
  have "f32_round x - x = (of_int (round_half_even (x / ?q)) - x / ?q) * ?q"
    using assms by (simp add: f32_round_def Let_def left_diff_distrib)
  then have "\<bar>f32_round x - x\<bar> = \<bar>of_int (round_half_even (x / ?q)) - x / ?q\<bar> * \<bar>?q\<bar>"
    by (simp only: abs_mult)
  also have "\<bar>?q\<bar> = ?q" by simp
  finally have "\<bar>f32_round x - x\<bar> = \<bar>of_int (round_half_even (x / ?q)) - x / ?q\<bar> * ?q" .
  also have "\<dots> \<le> (1 / 2) * ?q"
    using round_half_even_error[of "x / ?q"] qpos by (intro mult_right_mono) simp_all
  also have "\<dots> = 2 powi (f32_exponent x - 24)"
    by (simp add: power_int_diff)
  finally show ?thesis .
qed

lemma f32_round_relative_error:
  assumes "2 powi (- 126) \<le> \<bar>x\<bar>"
  shows "\<bar>f32_round x - x\<bar> \<le> 2 powi (- 24) * \<bar>x\<bar>"
proof -
  have x0: "x \<noteq> 0"
  proof
    assume "x = 0"
    with assms have "(2::rat) powi (- 126) \<le> 0" by simp
    moreover have "0 < (2::rat) powi (- 126)" by simp
    ultimately show False by linarith
  qed
  note b = f32_exponent_bounds[OF x0]
  have lo: "2 powi (f32_exponent x) \<le> \<bar>x\<bar>" using b(3) assms by auto
  have "\<bar>f32_round x - x\<bar> \<le> 2 powi (f32_exponent x - 24)" by (rule f32_round_error[OF x0])
  also have "\<dots> = 2 powi (- 24) * 2 powi (f32_exponent x)"
    by (simp add: power_int_diff power_int_minus field_simps)
  also have "\<dots> \<le> 2 powi (- 24) * \<bar>x\<bar>" using lo by (intro mult_left_mono) simp_all
  finally show ?thesis .
qed


lemma normalized_volume_nonneg: "0 \<le> normalized_volume v"
  by (simp add: normalized_volume_def std_max_def)

lemma f32_round_0 [simp]: "f32_round 0 = 0"
  by (simp add: f32_round_def)

lemma f32_round_100: "f32_round 100 = 100"
  using f32_round_eval[of 6 100 13107200] by simp

lemma normalized_volume_large:
  assumes "100 \<le> i"
  shows "std_max 0 (std_min (f32_div (f32_of_int i) 100) 1) = 1"
proof -
  have "(100::rat) \<le> of_int i" using assms by simp
  have "(2::rat) powi 6 \<le> of_int i" using assms by simp
  then have p6: "2 powi 6 \<le> f32_of_int i" unfolding f32_of_int_def by (rule f32_round_ge_power) simp
  have "100 \<le> f32_of_int i"
  proof (cases "128 \<le> i")
    case True
    then have "(2::rat) powi 7 \<le> of_int i" by simp
    then have "2 powi 7 \<le> f32_of_int i" unfolding f32_of_int_def by (rule f32_round_ge_power) simp
    then show ?thesis by simp
  next
    case False
    then have b: "\<bar>(of_int i :: rat)\<bar> < 2 powi (6 + 1)" "2 powi 6 \<le> \<bar>(of_int i :: rat)\<bar>"
      using assms by simp_all
    have "\<bar>(of_int i :: rat) / 2 powi (6 - 23) - of_int (i * 131072)\<bar> < 1 / 2" by simp
    from f32_round_eval[OF b(2) b(1) _ this] have "f32_of_int i = of_int i"
      by (simp add: f32_of_int_def)
    then show ?thesis using assms by simp
  qed
  then have "(2::rat) powi 0 \<le> f32_of_int i / 100" by simp
  then have "2 powi 0 \<le> f32_div (f32_of_int i) 100" unfolding f32_div_def by (rule f32_round_ge_power) simp
  then show ?thesis by (simp add: std_max_def std_min_def)
qed

lemma normalized_volume_negative:
  assumes "i < 0"
  shows "std_max 0 (std_min (f32_div (f32_of_int i) 100) 1) = 0"
proof -
  have "f32_of_int i \<le> 0" unfolding f32_of_int_def using assms by (intro f32_round_nonpos) simp
  then have "f32_div (f32_of_int i) 100 \<le> 0" unfolding f32_div_def by (intro f32_round_nonpos) simp
  then show ?thesis by (simp add: std_max_def std_min_def)
qed

lemma f32_round_relative_pos:
  assumes "2 powi (- 126) \<le> x"
  shows "x * (16777215 / 16777216) \<le> f32_round x" and "f32_round x \<le> x * (16777217 / 16777216)"
proof -
  have "0 < (2::rat) powi (- 126)" by simp
  with assms have xpos: "0 < x" by linarith
  then have "2 powi (- 126) \<le> \<bar>x\<bar>" using assms by simp
  from f32_round_relative_error[OF this] xpos
  have "\<bar>f32_round x - x\<bar> \<le> x / 16777216" by simp
  then show "x * (16777215 / 16777216) \<le> f32_round x" and "f32_round x \<le> x * (16777217 / 16777216)"
    by linarith+
qed

lemma volume_in_range:
  assumes "1 \<le> i" and "i \<le> 100"
  shows "i - 1 \<le> int_of_f32 (f32_mul (std_max 0 (std_min (f32_div (f32_of_int i) 100) 1)) 100)"
    and "int_of_f32 (f32_mul (std_max 0 (std_min (f32_div (f32_of_int i) 100) 1)) 100) \<le> i"
proof -
  let ?x = "of_int i :: rat"
  let ?a1 = "f32_of_int i"
  let ?a = "f32_div ?a1 100"
  let ?c = "std_max 0 (std_min ?a 1)"
  let ?b = "f32_mul ?c 100"
  have small: "(2::rat) powi (- 126) \<le> 1 / 200" by simp
  have x: "1 \<le> ?x" "?x \<le> 100" using assms by simp_all
  have "2 powi (- 126) \<le> ?x" using small x by linarith
  from f32_round_relative_pos[OF this]
  have a1: "?x * (16777215 / 16777216) \<le> ?a1" "?a1 \<le> ?x * (16777217 / 16777216)"
    by (simp_all add: f32_of_int_def)
  have "2 powi (- 126) \<le> ?a1 / 100" using small a1 x by linarith
  from f32_round_relative_pos[OF this]
  have a: "?a1 / 100 * (16777215 / 16777216) \<le> ?a" "?a \<le> ?a1 / 100 * (16777217 / 16777216)"
    by (simp_all add: f32_div_def)
  have c: "?a1 / 100 * (16777215 / 16777216) \<le> ?c" "?c \<le> ?a1 / 100 * (16777217 / 16777216)"
    using a a1 x by (auto simp: std_max_def std_min_def)
  have "2 powi (- 126) \<le> ?c * 100" using small c a1 x by linarith
  from f32_round_relative_pos[OF this]
  have b: "?c * 100 * (16777215 / 16777216) \<le> ?b" "?b \<le> ?c * 100 * (16777217 / 16777216)"
    by (simp_all add: f32_mul_def)
  have lo: "?x - 1 < ?b" using b(1) c(1) a1(1) x by linarith
  have hi: "?b < ?x + 1" using b(2) c(2) a1(2) x by linarith
  have bpos: "0 \<le> ?b" using lo x by linarith
  have "of_int (i - 1) < ?b" using lo by simp
  then have "i - 1 \<le> \<lfloor>?b\<rfloor>" by (simp add: le_floor_iff)
  moreover have "?b < of_int (i + 1)" using hi by simp
  then have "\<lfloor>?b\<rfloor> < i + 1" by (simp only: floor_less_iff)
  ultimately show "i - 1 \<le> int_of_f32 ?b" and "int_of_f32 ?b \<le> i"
    using bpos by (simp_all add: int_of_f32_def)
qed

lemma GetMusicVolume_SetMusicVolume:
  assumes "m_CurrentMusicSource s = 0 \<or> openal s (m_CurrentMusicSource s) \<noteq> None"
  shows "GetMusicVolume (SetMusicVolume v s) = Some (int_of_f32 (f32_mul (normalized_volume v) 100))"
  using assms normalized_volume_nonneg[of v]
  by (auto simp add: GetMusicVolume_def SetMusicVolume_def Let_def alSourcef_GAIN_def alGetSourcef_GAIN_def)

lemma read_back:
  "(sint v \<le> 0 \<longrightarrow> int_of_f32 (f32_mul (normalized_volume v) 100) = 0) \<and>
   (100 \<le> sint v \<longrightarrow> int_of_f32 (f32_mul (normalized_volume v) 100) = 100) \<and>
   (0 \<le> sint v \<and> sint v \<le> 100 \<longrightarrow>
      sint v - 1 \<le> int_of_f32 (f32_mul (normalized_volume v) 100) \<and>
      int_of_f32 (f32_mul (normalized_volume v) 100) \<le> sint v)"
proof -
  have z: "int_of_f32 (f32_mul 0 100) = 0" by (simp add: f32_mul_def int_of_f32_def)
  have h: "int_of_f32 (f32_mul 1 100) = 100" by (simp add: f32_mul_def f32_round_100 int_of_f32_def)
  have zero: "normalized_volume v = 0" if "sint v = 0"
    using that by (simp add: normalized_volume_def f32_of_int_def f32_div_def std_max_def std_min_def)
  show ?thesis
  proof (intro conjI impI)
    assume "sint v \<le> 0"
    then consider "sint v < 0" | "sint v = 0" by linarith
    then have "normalized_volume v = 0"
    proof cases
      case 1
      then show ?thesis by (simp add: normalized_volume_def normalized_volume_negative)
    next
      case 2
      then show ?thesis by (rule zero)
    qed
    then show "int_of_f32 (f32_mul (normalized_volume v) 100) = 0" by (simp add: z)
  next
    assume "100 \<le> sint v"
    then have "normalized_volume v = 1"
      by (simp add: normalized_volume_def normalized_volume_large)
    then show "int_of_f32 (f32_mul (normalized_volume v) 100) = 100" by (simp add: h)
  next
    assume a: "0 \<le> sint v \<and> sint v \<le> 100"
    show "sint v - 1 \<le> int_of_f32 (f32_mul (normalized_volume v) 100)"
    proof (cases "sint v = 0")
      case True
      then show ?thesis by (simp add: zero z)
    next
      case False
      with a have "1 \<le> sint v" "sint v \<le> 100" by simp_all
      from volume_in_range(1)[OF this] show ?thesis by (simp add: normalized_volume_def)
    qed
  next
    assume a: "0 \<le> sint v \<and> sint v \<le> 100"
    show "int_of_f32 (f32_mul (normalized_volume v) 100) \<le> sint v"
    proof (cases "sint v = 0")
      case True
      then show ?thesis by (simp add: zero z)
    next
      case False
      with a have "1 \<le> sint v" "sint v \<le> 100" by simp_all
      from volume_in_range(2)[OF this] show ?thesis by (simp add: normalized_volume_def)
    qed
  qed
qed

section \<open>Properties of the backend\<close>

lemma GenerateAudioKey_key_cong:
  "m_NextAudioKey s = m_NextAudioKey s' \<Longrightarrow> m_AudioKeyToPath s = m_AudioKeyToPath s' \<Longrightarrow>
   m_LastKeyGeneration s = m_LastKeyGeneration s' \<Longrightarrow>
   fst (GenerateAudioKey p s) = fst (GenerateAudioKey p s')"
  by (simp add: GenerateAudioKey_def Let_def split: option.split)

lemma GenerateAudioKey_again:
  "GenerateAudioKey p (snd (GenerateAudioKey p a)) = GenerateAudioKey p a"
  by (simp add: GenerateAudioKey_def Let_def split: option.split)

lemma GenerateAudioKey_backend_fields [simp]:
  fixes s :: OpenALAudio
  shows "m_AudioBuffers (snd (GenerateAudioKey p s)) = m_AudioBuffers s"
    and "openal (snd (GenerateAudioKey p s)) = openal s"
    and "m_CurrentMusicSource (snd (GenerateAudioKey p s)) = m_CurrentMusicSource s"
    and "m_CurrentMusicPathKey (snd (GenerateAudioKey p s)) = m_CurrentMusicPathKey s"
    and "m_Initialized (snd (GenerateAudioKey p s)) = m_Initialized s"
    and "m_MusicVolume (snd (GenerateAudioKey p s)) = m_MusicVolume s"
  by (simp_all add: GenerateAudioKey_def Let_def split: option.split)

lemma GenerateAudioKey_key_update [simp]:
  fixes s :: OpenALAudio
  shows "fst (GenerateAudioKey p (s\<lparr>openal := al\<rparr>)) = fst (GenerateAudioKey p s)"
    and "fst (GenerateAudioKey p (s\<lparr>m_CurrentMusicSource := c\<rparr>)) = fst (GenerateAudioKey p s)"
    and "fst (GenerateAudioKey p (s\<lparr>m_AudioBuffers := b\<rparr>)) = fst (GenerateAudioKey p s)"
  by (rule GenerateAudioKey_key_cong; simp)+

lemma GenerateAudioKey_again_key [simp]:
  "fst (GenerateAudioKey p (snd (GenerateAudioKey p a))) = fst (GenerateAudioKey p a)"
  by (simp add: GenerateAudioKey_again)

lemma PlayMusic_decode_fails:
  assumes "\<not> LoadWAVFile (decode env)"
    and "map_of (m_AudioBuffers s) (fst (GenerateAudioKey filepath s)) = None"
  shows "fst (PlayMusic filepath env s) = False"
    and "m_AudioBuffers (snd (PlayMusic filepath env s)) = m_AudioBuffers s"
    and "fst (GenerateAudioKey filepath (snd (PlayMusic filepath env s))) = fst (GenerateAudioKey filepath s)"
  using assms by (simp_all add: PlayMusic_def Let_def split_beta)

lemma PlaySoundEffect_decode_fails:
  assumes "\<not> LoadWAVFile (decode env)"
    and "map_of (m_AudioBuffers s) (fst (GenerateAudioKey filepath s)) = None"
  shows "fst (PlaySoundEffect filepath env g s) = False"
    and "m_AudioBuffers (snd (PlaySoundEffect filepath env g s)) = m_AudioBuffers s"
    and "fst (GenerateAudioKey filepath (snd (PlaySoundEffect filepath env g s))) = fst (GenerateAudioKey filepath s)"
  using assms by (simp_all add: PlaySoundEffect_def Let_def split_beta)


lemmas al_defs = alGenSources_def alDeleteSources_def alSourcef_GAIN_def alSourcei_LOOPING_def
  alSourcei_BUFFER_def alSourcePlay_def alSourcePause_def alSourceStop_def alSourceRewind_def
  alGetSourcef_GAIN_def alGetSourcei_STATE_def

lemma remove_if_stopped_keeps:
  assumes "al src = Some x" and "AL_SOURCE_STATE x \<noteq> AL_STOPPED"
  shows "snd (remove_if_stopped g srcs al) src = Some x \<and>
         (src \<in> set srcs \<longrightarrow> src \<in> set (fst (remove_if_stopped g srcs al)))"
  using assms
proof (induction srcs arbitrary: al)
  case Nil
  then show ?case by simp
next
  case (Cons a srcs)
  show ?case
  proof (cases "case alGetSourcei_STATE a al of Some st \<Rightarrow> st = AL_STOPPED | None \<Rightarrow> g a")
    case True
    with Cons.prems have ne: "a \<noteq> src" by (auto simp: alGetSourcei_STATE_def)
    then have "alDeleteSources a al src = Some x"
      using Cons.prems by (simp add: alDeleteSources_def)
    with Cons.IH[of "alDeleteSources a al"] Cons.prems(2) True ne show ?thesis by simp
  next
    case False
    with Cons.IH[of al] Cons.prems show ?thesis by (simp add: split_beta)
  qed
qed

lemma cleanup_buffers_keeps:
  assumes "al src = Some x" and "AL_SOURCE_STATE x \<noteq> AL_STOPPED"
  shows "snd (cleanup_buffers g bufs al) src = Some x \<and>
         (src \<in> set (all_sources bufs) \<longrightarrow>
            src \<in> set (all_sources (fst (cleanup_buffers g bufs al))))"
  using assms
proof (induction bufs arbitrary: al)
  case Nil
  then show ?case by simp
next
  case (Cons pair bufs)
  from remove_if_stopped_keeps[of al src x g "sources (snd pair)"] Cons.prems
  have a: "snd (remove_if_stopped g (sources (snd pair)) al) src = Some x"
    and b: "src \<in> set (sources (snd pair)) \<longrightarrow>
            src \<in> set (fst (remove_if_stopped g (sources (snd pair)) al))"
    by simp_all
  from Cons.IH[of "snd (remove_if_stopped g (sources (snd pair)) al)"] a Cons.prems(2) b
  show ?case
    by (auto simp add: split_beta all_sources_def)
qed

lemma unmute_fold:
  assumes "src \<noteq> cur"
    and "al src = Some x \<or> al src = Some (x\<lparr>AL_GAIN := 1\<rparr>)"
    and "src \<in> set L \<or> al src = Some (x\<lparr>AL_GAIN := 1\<rparr>)"
  shows "fold (\<lambda>source al. if source \<noteq> cur then sound_action kUnmute source al else al) L al src
         = Some (x\<lparr>AL_GAIN := 1\<rparr>)"
  using assms(2,3)
proof (induction L arbitrary: al)
  case Nil
  then show ?case by simp
next
  case (Cons a L)
  let ?al = "if a \<noteq> cur then sound_action kUnmute a al else al"
  have 1: "?al src = Some x \<or> ?al src = Some (x\<lparr>AL_GAIN := 1\<rparr>)"
    using Cons.prems(1) by (auto simp: sound_action_def alSourcef_GAIN_def split: option.splits)
  have 2: "src \<in> set L \<or> ?al src = Some (x\<lparr>AL_GAIN := 1\<rparr>)"
    using Cons.prems assms(1) by (auto simp: sound_action_def alSourcef_GAIN_def split: option.splits)
  from Cons.IH[of ?al] 1 2 show ?case by simp
qed

lemmas eval_defs = initialized_def music_playing_def sound_muted_def readable_wav_def
  unreadable_wav_def OpenALAudio_ctor_def Init_def PlayMusic_def PlaySoundEffect_def
  GenerateAudioKey_def CreateSource_def LoadWAVFile_def CleanupFinishedSources_def
  OperateCurrentSounds_def sound_action_def all_sources_def Let_def split_beta al_defs

lemma music_playing_facts:
  "m_Initialized music_playing"
  "m_CurrentMusicSource music_playing = 1"
  "m_CurrentMusicPathKey music_playing = 1"
  "openal music_playing 1 =
     Some \<lparr>AL_GAIN = 1, AL_SOURCE_STATE = AL_PLAYING, AL_LOOPING = False, AL_BUFFER = 1\<rparr>"
  "m_AudioBuffers music_playing = [(1, \<lparr>buffer = 1, sources = [1]\<rparr>)]"
  "m_AudioKeyToPath music_playing = [(1, ''a.wav'')]"
  "m_LastKeyGeneration music_playing = \<lparr>path = ''a.wav'', key = 1\<rparr>"
  "m_NextAudioKey music_playing = 2"
  by (simp_all add: eval_defs)

lemma sound_muted_facts:
  "m_Initialized sound_muted"
  "m_CurrentMusicSource sound_muted = 0"
  "openal sound_muted 5 =
     Some \<lparr>AL_GAIN = 0, AL_SOURCE_STATE = AL_PLAYING, AL_LOOPING = False, AL_BUFFER = 1\<rparr>"
  "m_AudioBuffers sound_muted = [(1, \<lparr>buffer = 1, sources = [5]\<rparr>)]"
  by (simp_all add: eval_defs)

text \<open>
  Claim C6. When the decode of the file fails (the file cannot be opened, or no frame
  could be read from it), \<^verbatim>\<open>PlayMusic\<close> and \<^verbatim>\<open>PlaySoundEffect\<close> return false and the buffer
  map holds no record under the path's key after the call. The decoder runs only when
  the buffer map has no record under that key yet, which is the second hypothesis.
\<close>

theorem decode_failure_reported:
  assumes "\<not> drwav_init_file (decode env) \<or> framesRead (decode env) = 0"
    and "map_of (m_AudioBuffers s) (fst (GenerateAudioKey filepath s)) = None"
  shows "\<not> fst (PlayMusic filepath env s) \<and>
         map_of (m_AudioBuffers (snd (PlayMusic filepath env s)))
           (fst (GenerateAudioKey filepath (snd (PlayMusic filepath env s)))) = None \<and>
         \<not> fst (PlaySoundEffect filepath env g s) \<and>
         map_of (m_AudioBuffers (snd (PlaySoundEffect filepath env g s)))
           (fst (GenerateAudioKey filepath (snd (PlaySoundEffect filepath env g s)))) = None"
proof -
  from assms(1) have f: "\<not> LoadWAVFile (decode env)" by (auto simp: LoadWAVFile_def)
  from PlayMusic_decode_fails[OF f assms(2)] PlaySoundEffect_decode_fails[OF f assms(2)] assms(2)
  show ?thesis by simp
qed

theorem decode_failure_reported_witness:
  "\<not> drwav_init_file unreadable_wav \<and>
   map_of (m_AudioBuffers music_playing) (fst (GenerateAudioKey ''gone.wav'' music_playing)) = None \<and>
   \<not> fst (PlayMusic ''gone.wav'' \<lparr>decode = unreadable_wav, new_buffer = 2, new_source = 2\<rparr>
            music_playing) \<and>
   \<not> fst (PlaySoundEffect ''gone.wav''
            \<lparr>decode = unreadable_wav, new_buffer = 2, new_source = 2\<rparr> (\<lambda>_. False) music_playing) \<and>
   map_of (m_AudioBuffers (snd (PlaySoundEffect ''gone.wav''
            \<lparr>decode = unreadable_wav, new_buffer = 2, new_source = 2\<rparr> (\<lambda>_. False) music_playing)))
     2 = None"
proof -
  have k: "fst (GenerateAudioKey ''gone.wav'' music_playing) = 2"
    by (simp add: GenerateAudioKey_def music_playing_facts)
  have h1: "\<not> drwav_init_file (decode \<lparr>decode = unreadable_wav, new_buffer = 2, new_source = 2\<rparr>)
      \<or> framesRead (decode \<lparr>decode = unreadable_wav, new_buffer = 2, new_source = 2\<rparr>) = 0"
    by (simp add: unreadable_wav_def)
  have h2: "map_of (m_AudioBuffers music_playing) (fst (GenerateAudioKey ''gone.wav'' music_playing)) = None"
    by (simp add: k music_playing_facts)
  from decode_failure_reported[OF h1 h2, of "\<lambda>_. False"] h2 k
  show ?thesis by (simp add: unreadable_wav_def PlaySoundEffect_decode_fails(3)[OF _ h2] LoadWAVFile_def)
qed

text \<open>
  Claim C3. In a state with an active music instance (the current-music handle \<open>old\<close> is
  not 0 and names a source of OpenAL), a \<^verbatim>\<open>PlayMusic\<close> call that returns true leaves the
  newly created source as the one current music instance, under the key of the new path,
  and \<^verbatim>\<open>IsMusicPlaying\<close> reports that instance as playing. Among all other source names
  only the previous instance changed: it has been stopped and deleted, so it is no longer
  a source (unless OpenAL handed its name out again for the new instance).
\<close>

theorem PlayMusic_replaces_music:
  assumes "m_CurrentMusicSource s = old" and "old \<noteq> 0" and "openal s old = Some x"
    and "PlayMusic filepath env s = (True, s')"
  shows "m_CurrentMusicSource s' = new_source env \<and> new_source env \<noteq> 0 \<and>
         m_CurrentMusicPathKey s' = fst (GenerateAudioKey filepath s) \<and>
         IsMusicPlaying s' = Some True \<and>
         (\<forall>n. n \<noteq> new_source env \<longrightarrow> openal s' n = (if n = old then None else openal s n)) \<and>
         (old \<noteq> new_source env \<longrightarrow> openal s' old = None)"
  using assms
  by (auto simp add: PlayMusic_def Let_def split_beta CreateSource_def IsMusicPlaying_def al_defs
      split: if_splits option.splits)

theorem PlayMusic_replaces_music_witness:
  "m_CurrentMusicSource music_playing = 1 \<and>
   fst (PlayMusic ''b.wav'' \<lparr>decode = readable_wav, new_buffer = 2, new_source = 2\<rparr> music_playing) \<and>
   m_CurrentMusicSource
     (snd (PlayMusic ''b.wav'' \<lparr>decode = readable_wav, new_buffer = 2, new_source = 2\<rparr>
             music_playing)) = 2 \<and>
   IsMusicPlaying
     (snd (PlayMusic ''b.wav'' \<lparr>decode = readable_wav, new_buffer = 2, new_source = 2\<rparr>
             music_playing)) = Some True \<and>
   openal
     (snd (PlayMusic ''b.wav'' \<lparr>decode = readable_wav, new_buffer = 2, new_source = 2\<rparr>
             music_playing)) 1 = None"
proof -
  let ?env = "\<lparr>decode = readable_wav, new_buffer = 2, new_source = 2\<rparr>"
  have ok: "fst (PlayMusic ''b.wav'' ?env music_playing)"
    by (simp add: PlayMusic_def GenerateAudioKey_def music_playing_facts Let_def split_beta
        LoadWAVFile_def readable_wav_def CreateSource_def)
  then have eq: "PlayMusic ''b.wav'' ?env music_playing =
      (True, snd (PlayMusic ''b.wav'' ?env music_playing))"
    by (simp add: prod_eq_iff)
  have ne: "(1 :: 32 word) \<noteq> 0" by simp
  from PlayMusic_replaces_music[OF music_playing_facts(2) ne music_playing_facts(4) eq] ok
    music_playing_facts(2)
  show ?thesis by simp
qed

text \<open>
  Claim C8. For every active source that is not the music source (it is listed in a
  buffer record, OpenAL knows it, and it has not stopped), \<^verbatim>\<open>OperateCurrentSounds\<close> with
  \<^verbatim>\<open>kUnmute\<close> sets the gain to 1 and changes nothing else of the source, whatever the gain
  was before.
\<close>

theorem unmute_sets_full_gain:
  assumes "m_Initialized s"
    and "src \<in> set (all_sources (m_AudioBuffers s))"
    and "src \<noteq> m_CurrentMusicSource s"
    and "openal s src = Some x" and "AL_SOURCE_STATE x \<noteq> AL_STOPPED"
  shows "openal (OperateCurrentSounds kUnmute g s) src = Some (x\<lparr>AL_GAIN := 1\<rparr>)"
proof -
  from cleanup_buffers_keeps[of "openal s" src x g "m_AudioBuffers s"] assms(2,4,5)
  have a: "snd (cleanup_buffers g (m_AudioBuffers s) (openal s)) src = Some x"
    and b: "src \<in> set (all_sources (fst (cleanup_buffers g (m_AudioBuffers s) (openal s))))"
    by simp_all
  from unmute_fold[of src "m_CurrentMusicSource s"
      "snd (cleanup_buffers g (m_AudioBuffers s) (openal s))" x
      "all_sources (fst (cleanup_buffers g (m_AudioBuffers s) (openal s)))"] assms(1,3) a b
  show ?thesis
    by (simp add: OperateCurrentSounds_def CleanupFinishedSources_def Let_def split_beta)
qed

theorem unmute_sets_full_gain_witness:
  "m_Initialized sound_muted \<and> 5 \<in> set (all_sources (m_AudioBuffers sound_muted)) \<and>
   5 \<noteq> m_CurrentMusicSource sound_muted \<and>
   map_option AL_GAIN (openal sound_muted 5) = Some 0 \<and>
   map_option AL_GAIN (openal (OperateCurrentSounds kUnmute (\<lambda>_. False) sound_muted) 5) = Some 1"
proof -
  have l: "5 \<in> set (all_sources (m_AudioBuffers sound_muted))"
    by (simp add: sound_muted_facts all_sources_def)
  have n: "5 \<noteq> m_CurrentMusicSource sound_muted" by (simp add: sound_muted_facts)
  have st: "AL_SOURCE_STATE \<lparr>AL_GAIN = 0, AL_SOURCE_STATE = AL_PLAYING, AL_LOOPING = False,
      AL_BUFFER = 1\<rparr> \<noteq> AL_STOPPED" by simp
  from unmute_sets_full_gain[OF sound_muted_facts(1) l n sound_muted_facts(3) st, of "\<lambda>_. False"]
    l n sound_muted_facts(1,3)
  show ?thesis by simp
qed

section \<open>Volume\<close>

lemma read_back_53: "int_of_f32 (f32_mul (normalized_volume 53) 100) = 52"
proof -
  have s: "sint (53 :: 32 word) = 53" by simp
  have a: "f32_of_int 53 = 53"
    using f32_round_eval[of 5 53 13893632] by (simp add: f32_of_int_def)
  have b: "f32_div 53 100 = 2222981 / 4194304"
    using f32_round_eval[of "- 1" "53 / 100" 8891924] by (simp add: f32_div_def)
  have c: "f32_mul (2222981 / 4194304) 100 = 13893631 / 262144"
    using f32_round_eval[of 5 "2222981 / 4194304 * 100" 13893631] by (simp add: f32_mul_def)
  have d: "\<lfloor>13893631 / 262144 :: rat\<rfloor> = 52" by (simp add: floor_eq_iff)
  show ?thesis
    by (simp add: normalized_volume_def s a b c d std_max_def std_min_def int_of_f32_def)
qed

text \<open>
  In a state whose current-music handle is 0 or names a source of OpenAL,
  \<^verbatim>\<open>SetMusicVolume(v)\<close> followed by \<^verbatim>\<open>GetMusicVolume()\<close> returns 0 for \<open>v \<le> 0\<close>, 100 for
  \<open>v \<ge> 100\<close>, and for \<open>v\<close> from 0 to 100 either \<open>v\<close> or \<open>v - 1\<close>: the volume is stored as
  the binary32 value nearest to \<open>v / 100\<close>, and multiplying it by 100 again can land just
  below \<open>v\<close>, which the conversion to \<^verbatim>\<open>int\<close> truncates (53 reads back as 52). In
  particular -10 reads back as 0 and 150 as 100.
\<close>

lemma music_volume_live_handle:
  assumes "m_CurrentMusicSource s = 0 \<or> openal s (m_CurrentMusicSource s) \<noteq> None"
  shows "(\<exists>r. GetMusicVolume (SetMusicVolume v s) = Some r \<and>
              (sint v \<le> 0 \<longrightarrow> r = 0) \<and> (100 \<le> sint v \<longrightarrow> r = 100) \<and>
              (0 \<le> sint v \<and> sint v \<le> 100 \<longrightarrow> sint v - 1 \<le> r \<and> r \<le> sint v)) \<and>
         GetMusicVolume (SetMusicVolume (- 10) s) = Some 0 \<and>
         GetMusicVolume (SetMusicVolume 150 s) = Some 100"
proof -
  have a: "sint (- 10 :: 32 word) \<le> 0" "100 \<le> sint (150 :: 32 word)" by simp_all
  show ?thesis
    unfolding GetMusicVolume_SetMusicVolume[OF assms]
    using read_back[of v] read_back[of "- 10"] read_back[of 150] a by simp
qed

lemma music_volume_live_handle_examples:
  "m_CurrentMusicSource OpenALAudio_ctor = 0 \<and>
   GetMusicVolume (SetMusicVolume (- 10) OpenALAudio_ctor) = Some 0 \<and>
   GetMusicVolume (SetMusicVolume 150 OpenALAudio_ctor) = Some 100 \<and>
   openal music_playing (m_CurrentMusicSource music_playing) \<noteq> None \<and>
   GetMusicVolume (SetMusicVolume (- 10) music_playing) = Some 0 \<and>
   GetMusicVolume (SetMusicVolume 150 music_playing) = Some 100 \<and>
   GetMusicVolume (SetMusicVolume 53 music_playing) = Some 52"
proof -
  have h0: "m_CurrentMusicSource OpenALAudio_ctor = 0" by (simp add: OpenALAudio_ctor_def)
  have h1: "openal music_playing (m_CurrentMusicSource music_playing) \<noteq> None"
    by (simp add: music_playing_facts)
  have e: "GetMusicVolume (SetMusicVolume 53 music_playing) = Some 52"
    using GetMusicVolume_SetMusicVolume[OF disjI2[OF h1], of 53] by (simp add: read_back_53)
  from music_volume_live_handle[OF disjI1[OF h0]] music_volume_live_handle[OF disjI2[OF h1]] h0 h1 e
  show ?thesis by simp
qed

lemma music_ended_facts:
  "m_CurrentMusicSource (run music_ended OpenALAudio_ctor) = 1"
  "openal (run music_ended OpenALAudio_ctor) 1 = None"
  "m_AudioBuffers (run music_ended OpenALAudio_ctor) =
     [(1, \<lparr>buffer = 1, sources = []\<rparr>), (2, \<lparr>buffer = 2, sources = [2]\<rparr>)]"
  by (simp_all add: music_ended_def eval_defs playback_ends_def)

text \<open>
  Claim C2. \<^verbatim>\<open>SetMusicVolume(v)\<close> followed by \<^verbatim>\<open>GetMusicVolume()\<close> returns \<open>v\<close> within
  integer rounding, and the clamped value outside 0 to 100. This holds in every state
  whose current-music handle is 0 or names a source (\<open>music_volume_live_handle\<close>). It
  fails in the state reached by \<open>music_ended\<close>: the music on source 1 has played to its
  end, and the sweep of \<^verbatim>\<open>CleanupFinishedSources\<close> in the next \<^verbatim>\<open>PlaySoundEffect\<close> has
  deleted source 1 without resetting \<^verbatim>\<open>m_CurrentMusicSource\<close>, which \<^verbatim>\<open>PlayMusic\<close> and
  \<^verbatim>\<open>FreeMusicByKey\<close> do reset when they delete it. The handle is still 1 and names no
  source; \<^verbatim>\<open>SetMusicVolume\<close> sets the gain of no source, \<^verbatim>\<open>alGetSourcef\<close> stores nothing,
  and \<^verbatim>\<open>GetMusicVolume\<close> converts its uninitialised local: for 40, for -10 and for 150
  the value read back is indeterminate.
\<close>

theorem music_volume_after_music_ended:
  "m_CurrentMusicSource (run music_ended OpenALAudio_ctor) = 1 \<and>
   openal (run music_ended OpenALAudio_ctor) 1 = None \<and>
   GetMusicVolume (SetMusicVolume 40 (run music_ended OpenALAudio_ctor)) = None \<and>
   GetMusicVolume (SetMusicVolume (- 10) (run music_ended OpenALAudio_ctor)) = None \<and>
   GetMusicVolume (SetMusicVolume 150 (run music_ended OpenALAudio_ctor)) = None"
  by (simp add: music_ended_facts GetMusicVolume_def SetMusicVolume_def Let_def
      alSourcef_GAIN_def alGetSourcef_GAIN_def)

section \<open>Fade-out\<close>






















section \<open>The key table\<close>

lemma update_absent: "k \<notin> fst ` set al \<Longrightarrow> AList.update k v al = al @ [(k, v)]"
  by (induction al) auto

lemma find_None_iff_path: "find (\<lambda>pair. snd pair = p) m = None \<longleftrightarrow> p \<notin> snd ` set m"
  by (induction m) auto

lemma find_Some_path:
  "find (\<lambda>pair. snd pair = p) m = Some e \<Longrightarrow> e \<in> set m \<and> snd e = p"
  by (induction m) (auto split: if_splits)

lemma word_less_succ:
  fixes a n :: "32 word"
  assumes "n \<noteq> - 1"
  shows "n < n + 1" and "a < n \<Longrightarrow> a < n + 1"
proof -
  have "1 + n \<noteq> 0" using assms by (metis add_eq_0_iff)
  then have "unat (1 + n) = Suc (unat n)" by (rule unatSuc)
  then have u: "unat (n + 1) = Suc (unat n)" by (simp add: add.commute)
  show "n < n + 1" by (simp add: word_less_nat_alt u)
  show "a < n \<Longrightarrow> a < n + 1" by (simp add: word_less_nat_alt u)
qed

lemma GenerateAudioKey_hit:
  fixes s :: OpenALAudio
  assumes "path (m_LastKeyGeneration s) = p"
  shows "GenerateAudioKey p s = (key (m_LastKeyGeneration s), s)"
  using assms by (simp add: GenerateAudioKey_def)

lemma GenerateAudioKey_scan:
  fixes s :: OpenALAudio
  assumes "path (m_LastKeyGeneration s) \<noteq> p"
    and "find (\<lambda>pair. snd pair = p) (m_AudioKeyToPath s) = Some e"
  shows "GenerateAudioKey p s = (fst e, s\<lparr>m_LastKeyGeneration := \<lparr>path = p, key = fst e\<rparr>\<rparr>)"
  using assms by (simp add: GenerateAudioKey_def)

lemma GenerateAudioKey_fresh:
  fixes s :: OpenALAudio
  assumes "path (m_LastKeyGeneration s) \<noteq> p"
    and "find (\<lambda>pair. snd pair = p) (m_AudioKeyToPath s) = None"
  shows "GenerateAudioKey p s =
        (m_NextAudioKey s, s\<lparr>m_NextAudioKey := m_NextAudioKey s + 1,
           m_AudioKeyToPath := AList.update (m_NextAudioKey s) p (m_AudioKeyToPath s),
           m_LastKeyGeneration := \<lparr>path = p, key = m_NextAudioKey s\<rparr>\<rparr>)"
  using assms by (simp add: GenerateAudioKey_def Let_def)


lemma table_okI:
  assumes "distinct (map fst (m_AudioKeyToPath s))" and "distinct (map snd (m_AudioKeyToPath s))"
    and "distinct (map fst (m_AudioBuffers s))"
    and "\<And>k. (k, path (m_LastKeyGeneration s)) \<in> set (m_AudioKeyToPath s)
           \<Longrightarrow> k = key (m_LastKeyGeneration s)"
    and "\<And>k. k \<in> fst ` set (m_AudioKeyToPath s) \<Longrightarrow> k < m_NextAudioKey s"
    and "\<And>k. k \<in> fst ` set (m_AudioBuffers s) \<Longrightarrow> k < m_NextAudioKey s"
    and "key (m_LastKeyGeneration s) < m_NextAudioKey s"
  shows "table_ok s"
  using assms unfolding table_ok_def by blast

lemma table_okD:
  assumes "table_ok s"
  shows "distinct (map fst (m_AudioKeyToPath s))" and "distinct (map snd (m_AudioKeyToPath s))"
    and "distinct (map fst (m_AudioBuffers s))"
    and "\<And>k. (k, path (m_LastKeyGeneration s)) \<in> set (m_AudioKeyToPath s)
           \<Longrightarrow> k = key (m_LastKeyGeneration s)"
    and "\<And>k. k \<in> fst ` set (m_AudioKeyToPath s) \<Longrightarrow> k < m_NextAudioKey s"
    and "\<And>k. k \<in> fst ` set (m_AudioBuffers s) \<Longrightarrow> k < m_NextAudioKey s"
    and "key (m_LastKeyGeneration s) < m_NextAudioKey s"
  using assms unfolding table_ok_def by blast+

lemma log_okI:
  assumes "\<And>k q. (k, q) \<in> set (m_AudioKeyToPath s) \<Longrightarrow> (q, k) \<in> A"
    and "(path (m_LastKeyGeneration s), key (m_LastKeyGeneration s)) \<in> A"
    and "\<And>q k. (q, k) \<in> A \<Longrightarrow> k < m_NextAudioKey s"
    and "\<And>q q' k. (q, k) \<in> A \<Longrightarrow> (q', k) \<in> A \<Longrightarrow> q = q'"
    and "\<And>q k. (q, k) \<in> A \<Longrightarrow> q \<noteq> [] \<Longrightarrow> \<not> F k \<Longrightarrow> (k, q) \<in> set (m_AudioKeyToPath s)"
  shows "log_ok F A s"
  using assms unfolding log_ok_def by blast

lemma log_okD:
  assumes "log_ok F A s"
  shows "\<And>k q. (k, q) \<in> set (m_AudioKeyToPath s) \<Longrightarrow> (q, k) \<in> A"
    and "(path (m_LastKeyGeneration s), key (m_LastKeyGeneration s)) \<in> A"
    and "\<And>q k. (q, k) \<in> A \<Longrightarrow> k < m_NextAudioKey s"
    and "\<And>q q' k. (q, k) \<in> A \<Longrightarrow> (q', k) \<in> A \<Longrightarrow> q = q'"
    and "\<And>q k. (q, k) \<in> A \<Longrightarrow> q \<noteq> [] \<Longrightarrow> \<not> F k \<Longrightarrow> (k, q) \<in> set (m_AudioKeyToPath s)"
  using assms unfolding log_ok_def by blast+


lemma GenerateAudioKey_inv:
  fixes s :: OpenALAudio
  assumes "table_ok s" and "log_ok F A s" and "m_NextAudioKey s \<noteq> - 1"
  shows "table_ok (snd (GenerateAudioKey p s)) \<and>
      log_ok F (insert (p, fst (GenerateAudioKey p s)) A) (snd (GenerateAudioKey p s)) \<and>
      fst (GenerateAudioKey p s) < m_NextAudioKey (snd (GenerateAudioKey p s)) \<and>
      unat (m_NextAudioKey (snd (GenerateAudioKey p s))) \<le> Suc (unat (m_NextAudioKey s)) \<and>
      m_AudioBuffers (snd (GenerateAudioKey p s)) = m_AudioBuffers s"
proof -
  let ?c = "m_LastKeyGeneration s" and ?m = "m_AudioKeyToPath s" and ?n = "m_NextAudioKey s"
  note t = table_okD[OF assms(1)] and l = log_okD[OF assms(2)]
  note ws = word_less_succ[OF assms(3)]
  consider (hit) "path ?c = p"
    | (scan) e where "path ?c \<noteq> p" "find (\<lambda>pair. snd pair = p) ?m = Some e"
    | (fresh) "path ?c \<noteq> p" "find (\<lambda>pair. snd pair = p) ?m = None"
    by (cases "find (\<lambda>pair. snd pair = p) ?m") auto
  then show ?thesis
  proof cases
    case hit
    note g = GenerateAudioKey_hit[OF hit]
    have "insert (p, key ?c) A = A" using l(2) hit by auto
    then show ?thesis using assms(1,2) t(7) by (simp add: g)
  next
    case scan
    from find_Some_path[OF scan(2)] have e: "e \<in> set ?m" "snd e = p" by simp_all
    have e': "(fst e, p) \<in> set ?m" using e(1) unfolding e(2)[symmetric] by simp
    note g = GenerateAudioKey_scan[OF scan]
    let ?s = "s\<lparr>m_LastKeyGeneration := \<lparr>path = p, key = fst e\<rparr>\<rparr>"
    have inA: "(p, fst e) \<in> A" using l(1)[OF e'] .
    then have A: "insert (p, fst e) A = A" by auto
    have uniq: "k = fst e" if "(k, p) \<in> set ?m" for k
    proof -
      have "inj_on snd (set ?m)" using t(2) by (simp add: distinct_map)
      from inj_onD[OF this _ that e'] show ?thesis by simp
    qed
    have lt: "fst e < ?n" using t(5)[of "fst e"] e(1) by simp
    have "table_ok ?s"
    proof (intro table_okI)
      show "distinct (map fst (m_AudioKeyToPath ?s))" using t(1) by simp
      show "distinct (map snd (m_AudioKeyToPath ?s))" using t(2) by simp
      show "distinct (map fst (m_AudioBuffers ?s))" using t(3) by simp
      show "\<And>k. (k, path (m_LastKeyGeneration ?s)) \<in> set (m_AudioKeyToPath ?s)
           \<Longrightarrow> k = key (m_LastKeyGeneration ?s)"
        using uniq by simp
      show "\<And>k. k \<in> fst ` set (m_AudioKeyToPath ?s) \<Longrightarrow> k < m_NextAudioKey ?s"
        using t(5) by simp
      show "\<And>k. k \<in> fst ` set (m_AudioBuffers ?s) \<Longrightarrow> k < m_NextAudioKey ?s"
        using t(6) by simp
      show "key (m_LastKeyGeneration ?s) < m_NextAudioKey ?s" using lt by simp
    qed
    moreover have "log_ok F A ?s"
    proof (intro log_okI)
      show "\<And>k q. (k, q) \<in> set (m_AudioKeyToPath ?s) \<Longrightarrow> (q, k) \<in> A"
        using l(1) by simp
      show "(path (m_LastKeyGeneration ?s), key (m_LastKeyGeneration ?s)) \<in> A"
        using inA by simp
      show "\<And>q k. (q, k) \<in> A \<Longrightarrow> k < m_NextAudioKey ?s"
        using l(3) by simp
      show "\<And>q q' k. (q, k) \<in> A \<Longrightarrow> (q', k) \<in> A \<Longrightarrow> q = q'"
        by (rule l(4))
      show "\<And>q k. (q, k) \<in> A \<Longrightarrow> q \<noteq> [] \<Longrightarrow> \<not> F k
              \<Longrightarrow> (k, q) \<in> set (m_AudioKeyToPath ?s)"
        using l(5) by simp
    qed
    ultimately show ?thesis using lt by (simp add: g A)
  next
    case fresh
    have pnew: "p \<notin> snd ` set ?m" using fresh(2) by (simp add: find_None_iff_path)
    have knew: "?n \<notin> fst ` set ?m" using t(5)[of ?n] by auto
    note g = GenerateAudioKey_fresh[OF fresh, unfolded update_absent[OF knew]]
    let ?s = "s\<lparr>m_NextAudioKey := ?n + 1, m_AudioKeyToPath := ?m @ [(?n, p)],
               m_LastKeyGeneration := \<lparr>path = p, key = ?n\<rparr>\<rparr>"
    have "1 + ?n \<noteq> 0" using assms(3) by (metis add_eq_0_iff)
    then have "unat (1 + ?n) = Suc (unat ?n)" by (rule unatSuc)
    then have u: "unat (?n + 1) = Suc (unat ?n)" by (simp add: add.commute)
    have nA: "k \<noteq> ?n" if "(q, k) \<in> A" for q k using l(3)[OF that] by auto
    have "table_ok ?s"
    proof (intro table_okI)
      show "distinct (map fst (m_AudioKeyToPath ?s))" using t(1) knew by simp
      show "distinct (map snd (m_AudioKeyToPath ?s))" using t(2) pnew by simp
      show "distinct (map fst (m_AudioBuffers ?s))" using t(3) by simp
      show "\<And>k. (k, path (m_LastKeyGeneration ?s)) \<in> set (m_AudioKeyToPath ?s)
           \<Longrightarrow> k = key (m_LastKeyGeneration ?s)"
        using pnew by (auto simp: image_iff)
      show "\<And>k. k \<in> fst ` set (m_AudioKeyToPath ?s) \<Longrightarrow> k < m_NextAudioKey ?s"
        using t(5) ws by auto
      show "\<And>k. k \<in> fst ` set (m_AudioBuffers ?s) \<Longrightarrow> k < m_NextAudioKey ?s"
        using t(6) ws by auto
      show "key (m_LastKeyGeneration ?s) < m_NextAudioKey ?s" using ws by simp
    qed
    moreover have "log_ok F (insert (p, ?n) A) ?s"
    proof (intro log_okI)
      show "\<And>k q. (k, q) \<in> set (m_AudioKeyToPath ?s) \<Longrightarrow> (q, k) \<in> insert (p, ?n) A"
        using l(1) by auto
      show "(path (m_LastKeyGeneration ?s), key (m_LastKeyGeneration ?s)) \<in> insert (p, ?n) A"
        by simp
      show "\<And>q k. (q, k) \<in> insert (p, ?n) A \<Longrightarrow> k < m_NextAudioKey ?s"
        using l(3) ws by fastforce
      show "\<And>q q' k. (q, k) \<in> insert (p, ?n) A \<Longrightarrow> (q', k) \<in> insert (p, ?n) A \<Longrightarrow> q = q'"
        using l(4) nA by blast
      show "\<And>q k. (q, k) \<in> insert (p, ?n) A \<Longrightarrow> q \<noteq> [] \<Longrightarrow> \<not> F k
              \<Longrightarrow> (k, q) \<in> set (m_AudioKeyToPath ?s)"
        using l(5) by auto
    qed
    ultimately show ?thesis using ws u by (simp add: g)
  qed
qed


lemma table_ok_frame:
  assumes "table_ok s"
    and "m_NextAudioKey s' = m_NextAudioKey s" and "m_AudioKeyToPath s' = m_AudioKeyToPath s"
    and "m_LastKeyGeneration s' = m_LastKeyGeneration s"
    and "distinct (map fst (m_AudioBuffers s'))"
    and "\<And>k. k \<in> fst ` set (m_AudioBuffers s') \<Longrightarrow> k < m_NextAudioKey s"
  shows "table_ok s'"
proof -
  note t = table_okD[OF assms(1)]
  show ?thesis
  proof (intro table_okI)
    show "distinct (map fst (m_AudioKeyToPath s'))" using t(1) assms(3) by simp
    show "distinct (map snd (m_AudioKeyToPath s'))" using t(2) assms(3) by simp
    show "distinct (map fst (m_AudioBuffers s'))" by (rule assms(5))
    show "\<And>k. (k, path (m_LastKeyGeneration s')) \<in> set (m_AudioKeyToPath s')
           \<Longrightarrow> k = key (m_LastKeyGeneration s')"
      using t(4) assms(3,4) by simp
    show "\<And>k. k \<in> fst ` set (m_AudioKeyToPath s') \<Longrightarrow> k < m_NextAudioKey s'"
      using t(5) assms(2,3) by simp
    show "\<And>k. k \<in> fst ` set (m_AudioBuffers s') \<Longrightarrow> k < m_NextAudioKey s'"
      using assms(6) assms(2) by simp
    show "key (m_LastKeyGeneration s') < m_NextAudioKey s'" using t(7) assms(2,4) by simp
  qed
qed

lemma log_ok_frame:
  assumes "log_ok F A s"
    and "m_NextAudioKey s' = m_NextAudioKey s" and "m_AudioKeyToPath s' = m_AudioKeyToPath s"
    and "m_LastKeyGeneration s' = m_LastKeyGeneration s"
  shows "log_ok F A s'"
  using assms(1) unfolding log_ok_def assms(2-4) .

lemma same_buffer_keys:
  assumes "table_ok s" and "map fst (m_AudioBuffers s') = map fst (m_AudioBuffers s)"
  shows "distinct (map fst (m_AudioBuffers s'))"
    and "\<And>k. k \<in> fst ` set (m_AudioBuffers s') \<Longrightarrow> k < m_NextAudioKey s"
proof -
  note t = table_okD[OF assms(1)]
  show "distinct (map fst (m_AudioBuffers s'))" using t(3) assms(2) by simp
  fix k assume "k \<in> fst ` set (m_AudioBuffers s')"
  then have "k \<in> set (map fst (m_AudioBuffers s'))" by simp
  then have "k \<in> set (map fst (m_AudioBuffers s))" by (simp only: assms(2))
  then show "k < m_NextAudioKey s" using t(6)[of k] by simp
qed

lemma more_buffer_keys:
  assumes "table_ok s" and "k' < m_NextAudioKey s" and "k' \<notin> fst ` set (m_AudioBuffers s)"
    and "map fst (m_AudioBuffers s') = map fst (m_AudioBuffers s) @ [k']"
  shows "distinct (map fst (m_AudioBuffers s'))"
    and "\<And>k. k \<in> fst ` set (m_AudioBuffers s') \<Longrightarrow> k < m_NextAudioKey s"
proof -
  note t = table_okD[OF assms(1)]
  show "distinct (map fst (m_AudioBuffers s'))" using t(3) assms(3,4) by simp
  fix k assume "k \<in> fst ` set (m_AudioBuffers s')"
  then have "k \<in> set (map fst (m_AudioBuffers s'))" by simp
  then have "k \<in> set (map fst (m_AudioBuffers s)) \<or> k = k'" by (simp only: assms(4)) auto
  then show "k < m_NextAudioKey s" using t(6)[of k] assms(2) by auto
qed

lemma map_fst_map_entry: "map fst (AList.map_entry k f al) = map fst al"
  by (induction al) auto

lemma map_fst_cleanup_buffers: "map fst (fst (cleanup_buffers g bufs al)) = map fst bufs"
  by (induction bufs arbitrary: al) (simp_all add: split_beta)

lemma map_of_None_keys: "map_of al k = None \<Longrightarrow> k \<notin> fst ` set al"
  by (simp add: map_of_eq_None_iff)

lemma PlayMusic_keys:
  assumes "m_Initialized s"
  shows "m_NextAudioKey (snd (PlayMusic p env s)) = m_NextAudioKey (snd (GenerateAudioKey p s))"
    and "m_AudioKeyToPath (snd (PlayMusic p env s)) = m_AudioKeyToPath (snd (GenerateAudioKey p s))"
    and "m_LastKeyGeneration (snd (PlayMusic p env s)) =
           m_LastKeyGeneration (snd (GenerateAudioKey p s))"
    and "map fst (m_AudioBuffers (snd (PlayMusic p env s))) = map fst (m_AudioBuffers s) \<or>
         fst (GenerateAudioKey p s) \<notin> fst ` set (m_AudioBuffers s) \<and>
         map fst (m_AudioBuffers (snd (PlayMusic p env s))) =
           map fst (m_AudioBuffers s) @ [fst (GenerateAudioKey p s)]"
  using assms
  by (auto simp add: PlayMusic_def Let_def split_beta map_fst_map_entry CreateSource_def
      dest: map_of_None_keys split: option.splits)


lemma PlaySoundEffect_keys:
  assumes "m_Initialized s"
  shows "m_NextAudioKey (snd (PlaySoundEffect p env g s)) =
           m_NextAudioKey (snd (GenerateAudioKey p s))"
    and "m_AudioKeyToPath (snd (PlaySoundEffect p env g s)) =
           m_AudioKeyToPath (snd (GenerateAudioKey p s))"
    and "m_LastKeyGeneration (snd (PlaySoundEffect p env g s)) =
           m_LastKeyGeneration (snd (GenerateAudioKey p s))"
    and "map fst (m_AudioBuffers (snd (PlaySoundEffect p env g s))) = map fst (m_AudioBuffers s) \<or>
         fst (GenerateAudioKey p s) \<notin> fst ` set (m_AudioBuffers s) \<and>
         map fst (m_AudioBuffers (snd (PlaySoundEffect p env g s))) =
           map fst (m_AudioBuffers s) @ [fst (GenerateAudioKey p s)]"
  using assms
  by (auto simp add: PlaySoundEffect_def Let_def split_beta map_fst_map_entry CreateSource_def
      CleanupFinishedSources_def map_fst_cleanup_buffers
      dest: map_of_None_keys split: option.splits)

lemma FadeInMusic_keys:
  "m_NextAudioKey (FadeInMusic p loops ms env s) = m_NextAudioKey (snd (PlayMusic p env s))"
  "m_AudioKeyToPath (FadeInMusic p loops ms env s) = m_AudioKeyToPath (snd (PlayMusic p env s))"
  "m_LastKeyGeneration (FadeInMusic p loops ms env s) =
     m_LastKeyGeneration (snd (PlayMusic p env s))"
  "m_AudioBuffers (FadeInMusic p loops ms env s) = m_AudioBuffers (snd (PlayMusic p env s))"
  by (simp_all add: FadeInMusic_def Let_def split_beta)

lemma PlayMusic_uninitialized: "\<not> m_Initialized s \<Longrightarrow> snd (PlayMusic p env s) = s"
  by (simp add: PlayMusic_def)

lemma PlaySoundEffect_uninitialized: "\<not> m_Initialized s \<Longrightarrow> snd (PlaySoundEffect p env g s) = s"
  by (simp add: PlaySoundEffect_def)

lemma SetSoundVolume_keys:
  "m_NextAudioKey (SetSoundVolume p v s) = m_NextAudioKey (snd (GenerateAudioKey p s))"
  "m_AudioKeyToPath (SetSoundVolume p v s) = m_AudioKeyToPath (snd (GenerateAudioKey p s))"
  "m_LastKeyGeneration (SetSoundVolume p v s) = m_LastKeyGeneration (snd (GenerateAudioKey p s))"
  "m_AudioBuffers (SetSoundVolume p v s) = m_AudioBuffers s"
  by (simp_all add: SetSoundVolume_def Let_def split_beta split: option.splits)

lemma GetSoundVolume_keys:
  "m_NextAudioKey (snd (GetSoundVolume p s)) = m_NextAudioKey (snd (GenerateAudioKey p s))"
  "m_AudioKeyToPath (snd (GetSoundVolume p s)) = m_AudioKeyToPath (snd (GenerateAudioKey p s))"
  "m_LastKeyGeneration (snd (GetSoundVolume p s)) =
     m_LastKeyGeneration (snd (GenerateAudioKey p s))"
  "m_AudioBuffers (snd (GetSoundVolume p s)) = m_AudioBuffers s"
  by (simp_all add: GetSoundVolume_def Let_def split_beta split: option.splits list.splits)

lemma after_generate:
  assumes "table_ok s" and "log_ok F A s" and "m_NextAudioKey s \<noteq> - 1"
    and "m_NextAudioKey s' = m_NextAudioKey (snd (GenerateAudioKey p s))"
    and "m_AudioKeyToPath s' = m_AudioKeyToPath (snd (GenerateAudioKey p s))"
    and "m_LastKeyGeneration s' = m_LastKeyGeneration (snd (GenerateAudioKey p s))"
    and "map fst (m_AudioBuffers s') = map fst (m_AudioBuffers s) \<or>
         fst (GenerateAudioKey p s) \<notin> fst ` set (m_AudioBuffers s) \<and>
         map fst (m_AudioBuffers s') = map fst (m_AudioBuffers s) @ [fst (GenerateAudioKey p s)]"
  shows "table_ok s' \<and> log_ok F (insert (p, fst (GenerateAudioKey p s)) A) s' \<and>
         unat (m_NextAudioKey s') \<le> Suc (unat (m_NextAudioKey s))"
proof -
  let ?s1 = "snd (GenerateAudioKey p s)" and ?k = "fst (GenerateAudioKey p s)"
  from GenerateAudioKey_inv[OF assms(1-3), of p]
  have t1: "table_ok ?s1" and l1: "log_ok F (insert (p, ?k) A) ?s1"
    and k: "?k < m_NextAudioKey ?s1"
    and u: "unat (m_NextAudioKey ?s1) \<le> Suc (unat (m_NextAudioKey s))"
    and b: "m_AudioBuffers ?s1 = m_AudioBuffers s" by simp_all
  from assms(7) have "table_ok s'"
  proof
    assume "map fst (m_AudioBuffers s') = map fst (m_AudioBuffers s)"
    then have e: "map fst (m_AudioBuffers s') = map fst (m_AudioBuffers ?s1)" by (simp add: b)
    show ?thesis
      by (rule table_ok_frame[OF t1 assms(4-6) same_buffer_keys[OF t1 e]])
  next
    assume a: "?k \<notin> fst ` set (m_AudioBuffers s) \<and>
         map fst (m_AudioBuffers s') = map fst (m_AudioBuffers s) @ [?k]"
    then have e: "map fst (m_AudioBuffers s') = map fst (m_AudioBuffers ?s1) @ [?k]"
      and n: "?k \<notin> fst ` set (m_AudioBuffers ?s1)" by (simp_all add: b)
    show ?thesis
      by (rule table_ok_frame[OF t1 assms(4-6) more_buffer_keys[OF t1 k n e]])
  qed
  moreover have "log_ok F (insert (p, ?k) A) s'" by (rule log_ok_frame[OF l1 assms(4-6)])
  ultimately show ?thesis using u assms(4) by simp
qed

lemma after_nothing:
  assumes "table_ok s" and "log_ok F A s"
    and "m_NextAudioKey s' = m_NextAudioKey s" and "m_AudioKeyToPath s' = m_AudioKeyToPath s"
    and "m_LastKeyGeneration s' = m_LastKeyGeneration s"
    and "map fst (m_AudioBuffers s') = map fst (m_AudioBuffers s)"
  shows "table_ok s' \<and> log_ok F A s' \<and> unat (m_NextAudioKey s') \<le> Suc (unat (m_NextAudioKey s))"
proof -
  have "table_ok s'"
    by (rule table_ok_frame[OF assms(1) assms(3-5) same_buffer_keys[OF assms(1) assms(6)]])
  moreover have "log_ok F A s'" by (rule log_ok_frame[OF assms(2) assms(3-5)])
  ultimately show ?thesis using assms(3) by simp
qed

lemma distinct_map_snd_delete:
  "distinct (map snd al) \<Longrightarrow> distinct (map snd (AList.delete k al))"
  by (induction al) (auto simp: AList.delete_eq)

lemma set_delete_subset: "e \<in> set (AList.delete k al) \<Longrightarrow> e \<in> set al \<and> fst e \<noteq> k"
  by (auto simp: AList.delete_eq)

lemma set_delete_other: "e \<in> set al \<Longrightarrow> fst e \<noteq> k \<Longrightarrow> e \<in> set (AList.delete k al)"
  by (auto simp: AList.delete_eq)

lemma after_free:
  assumes "table_ok s" and "log_ok F A s" and "F k"
    and "m_NextAudioKey s' = m_NextAudioKey s"
    and "m_AudioKeyToPath s' = AList.delete k (m_AudioKeyToPath s)"
    and "m_LastKeyGeneration s' = m_LastKeyGeneration s"
    and "m_AudioBuffers s' = AList.delete k (m_AudioBuffers s)"
  shows "table_ok s' \<and> log_ok F A s' \<and> unat (m_NextAudioKey s') \<le> Suc (unat (m_NextAudioKey s))"
proof -
  note t = table_okD[OF assms(1)] and l = log_okD[OF assms(2)]
  have "table_ok s'"
  proof (intro table_okI)
    show "distinct (map fst (m_AudioKeyToPath s'))"
      unfolding assms(5) by (rule distinct_delete[OF t(1)])
    show "distinct (map snd (m_AudioKeyToPath s'))"
      unfolding assms(5) by (rule distinct_map_snd_delete[OF t(2)])
    show "distinct (map fst (m_AudioBuffers s'))"
      unfolding assms(7) by (rule distinct_delete[OF t(3)])
    show "\<And>j. (j, path (m_LastKeyGeneration s')) \<in> set (m_AudioKeyToPath s')
           \<Longrightarrow> j = key (m_LastKeyGeneration s')"
      unfolding assms(5,6) using t(4) by (auto dest: set_delete_subset)
    show "\<And>j. j \<in> fst ` set (m_AudioKeyToPath s') \<Longrightarrow> j < m_NextAudioKey s'"
      unfolding assms(4,5) using t(5) by (auto dest!: set_delete_subset)
    show "\<And>j. j \<in> fst ` set (m_AudioBuffers s') \<Longrightarrow> j < m_NextAudioKey s'"
      unfolding assms(4,7) using t(6) by (auto dest!: set_delete_subset)
    show "key (m_LastKeyGeneration s') < m_NextAudioKey s'"
      unfolding assms(4,6) by (rule t(7))
  qed
  moreover have "log_ok F A s'"
  proof (intro log_okI)
    show "\<And>j q. (j, q) \<in> set (m_AudioKeyToPath s') \<Longrightarrow> (q, j) \<in> A"
      unfolding assms(5) using l(1) by (auto dest: set_delete_subset)
    show "(path (m_LastKeyGeneration s'), key (m_LastKeyGeneration s')) \<in> A"
      unfolding assms(6) by (rule l(2))
    show "\<And>q j. (q, j) \<in> A \<Longrightarrow> j < m_NextAudioKey s'"
      unfolding assms(4) by (rule l(3))
    show "\<And>q q' j. (q, j) \<in> A \<Longrightarrow> (q', j) \<in> A \<Longrightarrow> q = q'" by (rule l(4))
    show "\<And>q j. (q, j) \<in> A \<Longrightarrow> q \<noteq> [] \<Longrightarrow> \<not> F j \<Longrightarrow> (j, q) \<in> set (m_AudioKeyToPath s')"
    proof -
      fix q j assume a: "(q, j) \<in> A" "q \<noteq> []" "\<not> F j"
      then have "j \<noteq> k" using assms(3) by auto
      with l(5)[OF a] show "(j, q) \<in> set (m_AudioKeyToPath s')"
        unfolding assms(5) by (intro set_delete_other) simp_all
    qed
  qed
  ultimately show ?thesis using assms(4) by simp
qed


lemma step_inv:
  assumes "table_ok s" and "log_ok F A s" and "m_NextAudioKey s \<noteq> - 1"
    and "\<And>k. c = Call_FreeMusicByKey k \<Longrightarrow> F k" and "\<And>k. c = Call_FreeSoundByKey k \<Longrightarrow> F k"
  shows "table_ok (step c s) \<and> log_ok F (A \<union> set_option (generated c s)) (step c s) \<and>
         unat (m_NextAudioKey (step c s)) \<le> Suc (unat (m_NextAudioKey s))"
proof (cases c)
  case (Call_Init device_ok)
  then show ?thesis
    using after_nothing[OF assms(1,2), of "step c s"] by (simp add: Init_def)
next
  case (Call_PlayMusic p env)
  show ?thesis
  proof (cases "m_Initialized s")
    case True
    from after_generate[OF assms(1-3) PlayMusic_keys[OF True, of p env]] True
    show ?thesis by (simp add: Call_PlayMusic)
  next
    case False
    then show ?thesis
      using after_nothing[OF assms(1,2), of s] by (simp add: Call_PlayMusic PlayMusic_uninitialized)
  qed
next
  case (Call_PlaySoundEffect p env g)
  show ?thesis
  proof (cases "m_Initialized s")
    case True
    from after_generate[OF assms(1-3) PlaySoundEffect_keys[OF True, of p env g]] True
    show ?thesis by (simp add: Call_PlaySoundEffect)
  next
    case False
    then show ?thesis
      using after_nothing[OF assms(1,2), of s]
      by (simp add: Call_PlaySoundEffect PlaySoundEffect_uninitialized)
  qed
next
  case (Call_OperateCurrentMusic action)
  then show ?thesis
    using after_nothing[OF assms(1,2), of "step c s"]
    by (simp add: OperateCurrentMusic_def Let_def split: EAudioAction.splits)
next
  case (Call_OperateCurrentSounds action g)
  then show ?thesis
    using after_nothing[OF assms(1,2), of "step c s"]
    by (simp add: OperateCurrentSounds_def CleanupFinishedSources_def Let_def split_beta
        map_fst_cleanup_buffers)
next
  case (Call_FadeInMusic p loops ms env)
  show ?thesis
  proof (cases "m_Initialized s")
    case True
    from after_generate[OF assms(1-3), of "FadeInMusic p loops ms env s" p]
      PlayMusic_keys[OF True, of p env] True
    show ?thesis by (simp add: Call_FadeInMusic FadeInMusic_keys)
  next
    case False
    then have "FadeInMusic p loops ms env s = s"
      by (simp add: FadeInMusic_def PlayMusic_def)
    then show ?thesis
      using after_nothing[OF assms(1,2), of s] False by (simp add: Call_FadeInMusic)
  qed
next
  case (Call_FadeOutMusic ms)
  then show ?thesis
    using after_nothing[OF assms(1,2), of "step c s"] by (simp add: FadeOutMusic_def Let_def)
next
  case Call_UpdateFading
  then show ?thesis
    using after_nothing[OF assms(1,2), of "step c s"] by (simp add: UpdateFading_def Let_def)
next
  case (Call_FreeMusicByKey k)
  show ?thesis
  proof (cases "map_of (m_AudioBuffers s) k")
    case None
    then show ?thesis
      using after_nothing[OF assms(1,2), of s] by (simp add: Call_FreeMusicByKey FreeMusicByKey_def)
  next
    case (Some b)
    from after_free[OF assms(1,2) assms(4)[OF Call_FreeMusicByKey], of "FreeMusicByKey k s"] Some
    show ?thesis by (simp add: Call_FreeMusicByKey FreeMusicByKey_def Let_def)
  qed
next
  case (Call_FreeSoundByKey k)
  show ?thesis
  proof (cases "map_of (m_AudioBuffers s) k")
    case None
    then show ?thesis
      using after_nothing[OF assms(1,2), of s] by (simp add: Call_FreeSoundByKey FreeSoundByKey_def)
  next
    case (Some b)
    from after_free[OF assms(1,2) assms(5)[OF Call_FreeSoundByKey], of "FreeSoundByKey k s"] Some
    show ?thesis by (simp add: Call_FreeSoundByKey FreeSoundByKey_def Let_def)
  qed
next
  case (Call_SetMusicVolume v)
  then show ?thesis
    using after_nothing[OF assms(1,2), of "step c s"] by (simp add: SetMusicVolume_def Let_def)
next
  case (Call_SetSoundVolume p v)
  from after_generate[OF assms(1-3), of "SetSoundVolume p v s" p]
  show ?thesis by (simp add: Call_SetSoundVolume SetSoundVolume_keys)
next
  case Call_GetMusicVolume
  then show ?thesis using after_nothing[OF assms(1,2), of s] by simp
next
  case (Call_GetSoundVolume p)
  from after_generate[OF assms(1-3), of "snd (GetSoundVolume p s)" p]
  show ?thesis by (simp add: Call_GetSoundVolume GetSoundVolume_keys)
next
  case Call_GetMaxVolume
  then show ?thesis using after_nothing[OF assms(1,2), of s] by simp
next
  case Call_SetMusicPosition
  then show ?thesis using after_nothing[OF assms(1,2), of s] by (simp add: SetMusicPosition_def)
next
  case (Call_SetFinishMusicCallback f)
  then show ?thesis
    using after_nothing[OF assms(1,2), of "step c s"] by (simp add: SetFinishMusicCallback_def)
next
  case (Call_GetMusicType p)
  then show ?thesis using after_nothing[OF assms(1,2), of s] by simp
next
  case Call_IsMusicPlaying
  then show ?thesis using after_nothing[OF assms(1,2), of s] by simp
next
  case Call_IsMusicPaused
  then show ?thesis using after_nothing[OF assms(1,2), of s] by simp
next
  case Call_IsMusicFading
  then show ?thesis using after_nothing[OF assms(1,2), of s] by simp
next
  case (Playback_Ends source)
  then show ?thesis using after_nothing[OF assms(1,2), of "step c s"] by simp
qed


lemma frees_Cons: "frees k (c # cs) \<longleftrightarrow> c = Call_FreeMusicByKey k \<or> c = Call_FreeSoundByKey k \<or> frees k cs"
  by (auto simp: frees_def)

lemma not_max_word:
  fixes n :: "32 word"
  assumes "unat n < 2 ^ 32 - 1"
  shows "n \<noteq> - 1"
proof
  assume "n = - 1"
  then have "unat n = 2 ^ 32 - 1" by (simp add: unsigned_minus_1_eq_mask mask_eq_exp_minus_1)
  with assms show False by simp
qed

lemma run_inv:
  assumes "table_ok s" and "log_ok F A s"
    and "unat (m_NextAudioKey s) + length cs < 2 ^ 32"
    and "\<And>k. frees k cs \<Longrightarrow> F k"
  shows "table_ok (run cs s) \<and> log_ok F (A \<union> set (key_log cs s)) (run cs s)"
  using assms
proof (induction cs arbitrary: s A)
  case Nil
  then show ?case by simp
next
  case (Cons c cs)
  have "unat (m_NextAudioKey s) < 2 ^ 32 - 1" using Cons.prems(3) by simp
  then have nm: "m_NextAudioKey s \<noteq> - 1" by (rule not_max_word)
  have f1: "\<And>k. c = Call_FreeMusicByKey k \<Longrightarrow> F k" and f2: "\<And>k. c = Call_FreeSoundByKey k \<Longrightarrow> F k"
    using Cons.prems(4) by (simp_all add: frees_Cons)
  from step_inv[OF Cons.prems(1,2) nm f1 f2]
  have t: "table_ok (step c s)"
    and l: "log_ok F (A \<union> set_option (generated c s)) (step c s)"
    and u: "unat (m_NextAudioKey (step c s)) \<le> Suc (unat (m_NextAudioKey s))" by simp_all
  have b: "unat (m_NextAudioKey (step c s)) + length cs < 2 ^ 32" using u Cons.prems(3) by simp
  have f: "\<And>k. frees k cs \<Longrightarrow> F k" using Cons.prems(4) by (simp add: frees_Cons)
  have e: "A \<union> set (key_log (c # cs) s) =
      (A \<union> set_option (generated c s)) \<union> set (key_log cs (step c s))"
    by (cases "generated c s") auto
  from Cons.IH[OF t l b f] show ?case by (simp only: e run.simps)
qed

lemma ctor_inv: "table_ok OpenALAudio_ctor" "log_ok F {([], 0)} OpenALAudio_ctor"
  by (simp_all add: table_ok_def log_ok_def OpenALAudio_ctor_def)

lemma reachable_inv:
  assumes "length cs < 2 ^ 32 - 1"
  shows "table_ok (run cs OpenALAudio_ctor)"
    and "log_ok (\<lambda>k. frees k cs) ({([], 0)} \<union> set (key_log cs OpenALAudio_ctor))
           (run cs OpenALAudio_ctor)"
proof -
  have "unat (m_NextAudioKey OpenALAudio_ctor) + length cs < 2 ^ 32"
    using assms by (simp add: OpenALAudio_ctor_def)
  from run_inv[OF ctor_inv this, of "\<lambda>k. frees k cs"]
  show "table_ok (run cs OpenALAudio_ctor)"
    and "log_ok (\<lambda>k. frees k cs) ({([], 0)} \<union> set (key_log cs OpenALAudio_ctor))
           (run cs OpenALAudio_ctor)" by simp_all
qed

lemma run_append: "run (xs @ ys) s = run ys (run xs s)"
  by (induction xs arbitrary: s) simp_all

lemma key_log_append: "key_log (xs @ ys) s = key_log xs s @ key_log ys (run xs s)"
  by (induction xs arbitrary: s) simp_all

lemma lookups_Suc:
  "lookups (Suc n) = lookups n @ [Call_GetSoundVolume (replicate (Suc n) (CHR ''a''))]"
  by (simp add: lookups_def)

lemma set_update_subset: "e \<in> set (AList.update k v al) \<Longrightarrow> e = (k, v) \<or> e \<in> set al"
  by (induction al) (auto split: if_splits)

lemma lookups_state:
  "m_NextAudioKey (run (lookups n) OpenALAudio_ctor) = of_nat (Suc n) \<and>
   (\<forall>e \<in> set (m_AudioKeyToPath (run (lookups n) OpenALAudio_ctor)). length (snd e) \<le> n) \<and>
   length (path (m_LastKeyGeneration (run (lookups n) OpenALAudio_ctor))) \<le> n \<and>
   key_log (lookups n) OpenALAudio_ctor =
     map (\<lambda>i. (replicate i (CHR ''a''), of_nat i)) [1..<Suc n]"
proof (induction n)
  case 0
  show ?case by (simp add: lookups_def OpenALAudio_ctor_def)
next
  case (Suc n)
  let ?s = "run (lookups n) OpenALAudio_ctor"
  define p where "p = replicate (Suc n) (CHR ''a'')"
  have lp: "length p = Suc n" by (simp add: p_def)
  have ls: "lookups (Suc n) = lookups n @ [Call_GetSoundVolume p]"
    unfolding p_def by (rule lookups_Suc)
  from Suc.IH have nx: "m_NextAudioKey ?s = of_nat (Suc n)"
    and ps: "\<And>e. e \<in> set (m_AudioKeyToPath ?s) \<Longrightarrow> length (snd e) \<le> n"
    and cp: "length (path (m_LastKeyGeneration ?s)) \<le> n"
    and lg: "key_log (lookups n) OpenALAudio_ctor =
       map (\<lambda>i. (replicate i (CHR ''a''), of_nat i)) [1..<Suc n]" by simp_all
  have miss: "path (m_LastKeyGeneration ?s) \<noteq> p"
  proof
    assume "path (m_LastKeyGeneration ?s) = p"
    then have "length (path (m_LastKeyGeneration ?s)) = Suc n" by (simp add: lp)
    with cp show False by simp
  qed
  have none: "find (\<lambda>pair. snd pair = p) (m_AudioKeyToPath ?s) = None"
  proof -
    have "p \<notin> snd ` set (m_AudioKeyToPath ?s)"
    proof
      assume "p \<in> snd ` set (m_AudioKeyToPath ?s)"
      then obtain e where e: "e \<in> set (m_AudioKeyToPath ?s)" "snd e = p" by auto
      from ps[OF e(1)] e(2) lp show False by simp
    qed
    then show ?thesis by (simp add: find_None_iff_path)
  qed
  note g = GenerateAudioKey_fresh[OF miss none]
  let ?t = "snd (GetSoundVolume p ?s)"
  have r: "run (lookups (Suc n)) OpenALAudio_ctor = ?t"
    by (simp add: ls run_append)
  have 1: "m_NextAudioKey ?t = of_nat (Suc (Suc n))"
    by (simp add: GetSoundVolume_keys g nx)
  have 2: "\<forall>e \<in> set (m_AudioKeyToPath ?t). length (snd e) \<le> Suc n"
  proof
    fix e assume "e \<in> set (m_AudioKeyToPath ?t)"
    then have "e \<in> set (AList.update (m_NextAudioKey ?s) p (m_AudioKeyToPath ?s))"
      by (simp add: GetSoundVolume_keys g)
    from set_update_subset[OF this] show "length (snd e) \<le> Suc n"
    proof
      assume "e = (m_NextAudioKey ?s, p)"
      then show ?thesis by (simp add: lp)
    next
      assume "e \<in> set (m_AudioKeyToPath ?s)"
      from ps[OF this] show ?thesis by simp
    qed
  qed
  have 3: "length (path (m_LastKeyGeneration ?t)) \<le> Suc n"
    by (simp add: GetSoundVolume_keys g lp)
  have "key_log (lookups (Suc n)) OpenALAudio_ctor =
     map (\<lambda>i. (replicate i (CHR ''a''), of_nat i)) [1..<Suc n] @ [(p, of_nat (Suc n))]"
    by (simp add: ls key_log_append lg g nx)
  also have "\<dots> = map (\<lambda>i. (replicate i (CHR ''a''), of_nat i)) [1..<Suc (Suc n)]"
    by (simp add: p_def)
  finally have 4: "key_log (lookups (Suc n)) OpenALAudio_ctor =
     map (\<lambda>i. (replicate i (CHR ''a''), of_nat i)) [1..<Suc (Suc n)]" .
  from 1 2 3 4 show ?case by (simp only: r) 
qed

lemma wrap_to_one: "(of_nat wrap_count :: 32 word) = 1"
proof -
  have "(of_nat (2 ^ 32) :: 32 word) = 0" using of_nat_2p[where 'a = 32] by simp
  then show ?thesis by (simp add: wrap_count_def)
qed






lemma table_ok_lookup:
  assumes "table_ok s" and "(k, p) \<in> set (m_AudioKeyToPath s)"
  shows "fst (GenerateAudioKey p s) = k"
proof -
  note t = table_okD[OF assms(1)]
  show ?thesis
  proof (cases "path (m_LastKeyGeneration s) = p")
    case True
    from t(4)[of k] assms(2) True have "k = key (m_LastKeyGeneration s)" by simp
    then show ?thesis using GenerateAudioKey_hit[OF True] by simp
  next
    case False
    have "p \<in> snd ` set (m_AudioKeyToPath s)" using assms(2) by force
    then obtain e where f: "find (\<lambda>pair. snd pair = p) (m_AudioKeyToPath s) = Some e"
      by (cases "find (\<lambda>pair. snd pair = p) (m_AudioKeyToPath s)")
        (simp_all add: find_None_iff_path)
    from find_Some_path[OF f] have e: "e \<in> set (m_AudioKeyToPath s)" "snd e = p" by simp_all
    have "inj_on snd (set (m_AudioKeyToPath s))" using t(2) by (simp add: distinct_map)
    from inj_onD[OF this _ e(1) assms(2)] e(2) have "e = (k, p)" by simp
    then show ?thesis using GenerateAudioKey_scan[OF False f] by simp
  qed
qed

lemma replay_after_free_log:
  "key_log replay_after_free OpenALAudio_ctor = [(''a.wav'', 1), (''b.wav'', 2), (''a.wav'', 3)]"
  by (simp add: replay_after_free_def eval_defs FreeMusicByKey_def GetSoundVolume_def
      stop_and_delete_def)

lemma free_other_key_log:
  "key_log free_other_key OpenALAudio_ctor =
     [(''a.wav'', 1), (''b.wav'', 2), (''a.wav'', 1), (''b.wav'', 3)]"
  by (simp add: free_other_key_def eval_defs FreeSoundByKey_def GetSoundVolume_def
      stop_and_delete_def)

lemma free_other_key_frees:
  "\<not> frees 1 free_other_key" "frees 2 free_other_key" "length free_other_key < 2 ^ 32 - 1"
  by (simp_all add: free_other_key_def frees_def)

lemma empty_path_lookups_log:
  "key_log empty_path_lookups OpenALAudio_ctor = [([], 0), (''b.wav'', 1), ([], 2)]"
  by (simp add: empty_path_lookups_def eval_defs GetSoundVolume_def)










lemma GenerateAudioKey_counter:
  fixes s :: OpenALAudio
  shows "m_NextAudioKey (snd (GenerateAudioKey p s)) = m_NextAudioKey s \<or>
         m_NextAudioKey (snd (GenerateAudioKey p s)) = m_NextAudioKey s + 1"
  by (simp add: GenerateAudioKey_def Let_def split: option.splits)

lemma step_counter:
  "m_NextAudioKey (step c s) = m_NextAudioKey s \<or>
   m_NextAudioKey (step c s) = m_NextAudioKey s + 1"
proof (cases c)
  case (Call_Init device_ok)
  then show ?thesis by (simp add: Init_def)
next
  case (Call_PlayMusic p env)
  show ?thesis
  proof (cases "m_Initialized s")
    case True
    from PlayMusic_keys(1)[OF True, of p env] GenerateAudioKey_counter[of p s]
    show ?thesis by (simp add: Call_PlayMusic)
  next
    case False
    then show ?thesis by (simp add: Call_PlayMusic PlayMusic_uninitialized)
  qed
next
  case (Call_PlaySoundEffect p env g)
  show ?thesis
  proof (cases "m_Initialized s")
    case True
    from PlaySoundEffect_keys(1)[OF True, of p env g] GenerateAudioKey_counter[of p s]
    show ?thesis by (simp add: Call_PlaySoundEffect)
  next
    case False
    then show ?thesis by (simp add: Call_PlaySoundEffect PlaySoundEffect_uninitialized)
  qed
next
  case (Call_OperateCurrentMusic action)
  then show ?thesis
    by (simp add: OperateCurrentMusic_def Let_def split: EAudioAction.splits)
next
  case (Call_OperateCurrentSounds action g)
  then show ?thesis
    by (simp add: OperateCurrentSounds_def CleanupFinishedSources_def Let_def split_beta)
next
  case (Call_FadeInMusic p loops ms env)
  show ?thesis
  proof (cases "m_Initialized s")
    case True
    from PlayMusic_keys(1)[OF True, of p env] GenerateAudioKey_counter[of p s]
    show ?thesis by (simp add: Call_FadeInMusic FadeInMusic_keys)
  next
    case False
    then show ?thesis by (simp add: Call_FadeInMusic FadeInMusic_keys PlayMusic_uninitialized)
  qed
next
  case (Call_FadeOutMusic ms)
  then show ?thesis by (simp add: FadeOutMusic_def Let_def)
next
  case Call_UpdateFading
  then show ?thesis by (simp add: UpdateFading_def Let_def)
next
  case (Call_FreeMusicByKey k)
  then show ?thesis by (simp add: FreeMusicByKey_def Let_def split: option.splits)
next
  case (Call_FreeSoundByKey k)
  then show ?thesis by (simp add: FreeSoundByKey_def Let_def split: option.splits)
next
  case (Call_SetMusicVolume v)
  then show ?thesis by (simp add: SetMusicVolume_def Let_def)
next
  case (Call_SetSoundVolume p v)
  with GenerateAudioKey_counter[of p s] show ?thesis by (simp add: SetSoundVolume_keys)
next
  case (Call_GetSoundVolume p)
  with GenerateAudioKey_counter[of p s] show ?thesis by (simp add: GetSoundVolume_keys)
next
  case Call_SetMusicPosition
  then show ?thesis by (simp add: SetMusicPosition_def)
next
  case (Call_SetFinishMusicCallback f)
  then show ?thesis by (simp add: SetFinishMusicCallback_def)
qed simp_all

text \<open>
  Claim C9. The key counter starts at 1, and every call leaves it as it is or adds 1 to
  it. Over every sequence of fewer than \<open>2 ^ 32 - 1\<close> calls from the constructor, a key
  that a lookup has returned for one path is never returned for a different path,
  whether or not the key has been freed in between: a fresh key is the value of the
  counter, and every key returned so far is below it.
\<close>

theorem key_not_reassigned:
  assumes "length cs < 2 ^ 32 - 1"
    and "(p1, k) \<in> set (key_log cs OpenALAudio_ctor)"
    and "(p2, k) \<in> set (key_log cs OpenALAudio_ctor)"
  shows "p1 = p2 \<and> m_NextAudioKey OpenALAudio_ctor = 1 \<and>
         (m_NextAudioKey (step c s) = m_NextAudioKey s \<or>
          m_NextAudioKey (step c s) = m_NextAudioKey s + 1)"
  using log_okD(4)[OF reachable_inv(2)[OF assms(1)], of p1 k p2] assms(2,3) step_counter[of c s]
  by (simp add: OpenALAudio_ctor_def)

theorem key_not_reassigned_witness:
  "length free_other_key < 2 ^ 32 - 1 \<and>
   key_log free_other_key OpenALAudio_ctor =
     [(''a.wav'', 1), (''b.wav'', 2), (''a.wav'', 1), (''b.wav'', 3)] \<and>
   frees 2 free_other_key \<and>
   (''a.wav'', 2) \<notin> set (key_log free_other_key OpenALAudio_ctor)"
  using key_not_reassigned[OF free_other_key_frees(3), of "''a.wav''" 1 "''a.wav''"]
    key_not_reassigned[OF free_other_key_frees(3), of "''b.wav''" 2 "''a.wav''"]
    free_other_key_frees
  by (simp add: free_other_key_log)

text \<open>
  The counter is a 32-bit unsigned integer and wraps. After lookups of \<open>2 ^ 32 + 1\<close>
  different paths the last one is given key 1, the key of the first.
\<close>

theorem key_reassigned_after_wrap:
  "(''a'', 1) \<in> set (key_log (lookups wrap_count) OpenALAudio_ctor) \<and>
   (replicate wrap_count (CHR ''a''), 1) \<in> set (key_log (lookups wrap_count) OpenALAudio_ctor) \<and>
   ''a'' \<noteq> replicate wrap_count (CHR ''a'')"
proof -
  let ?f = "\<lambda>i. (replicate i (CHR ''a''), of_nat i :: 32 word)"
  have lg: "key_log (lookups wrap_count) OpenALAudio_ctor = map ?f [1..<Suc wrap_count]"
    using lookups_state[of wrap_count] by simp
  have big: "1 < wrap_count" by (simp add: wrap_count_def)
  have m1: "(1::nat) \<in> set [1..<Suc wrap_count]" and m2: "wrap_count \<in> set [1..<Suc wrap_count]"
    using big by simp_all
  have "?f 1 \<in> ?f ` set [1..<Suc wrap_count]" using m1 by (rule imageI)
  then have a: "(''a'', 1) \<in> set (map ?f [1..<Suc wrap_count])" by simp
  have "?f wrap_count \<in> ?f ` set [1..<Suc wrap_count]" using m2 by (rule imageI)
  then have b: "(replicate wrap_count (CHR ''a''), 1) \<in> set (map ?f [1..<Suc wrap_count])"
    by (simp add: wrap_to_one)
  have c: "''a'' \<noteq> replicate wrap_count (CHR ''a'')"
  proof
    assume "''a'' = replicate wrap_count (CHR ''a'')"
    then have "length ''a'' = length (replicate wrap_count (CHR ''a''))" by (rule arg_cong)
    with big show False by simp
  qed
  from a b c show ?thesis unfolding lg by (intro conjI)
qed

text \<open>
  Claim C1. Over every sequence of fewer than \<open>2 ^ 32 - 1\<close> calls from the constructor,
  with calls of \<^verbatim>\<open>FreeMusicByKey\<close> and \<^verbatim>\<open>FreeSoundByKey\<close> among them: two lookups of
  different paths return different keys; and two lookups of the same non-empty path
  return the same key, unless the sequence frees one of the two keys.
\<close>

theorem keys_distinct_and_stable_until_freed:
  assumes "length cs < 2 ^ 32 - 1"
    and "(p1, k1) \<in> set (key_log cs OpenALAudio_ctor)"
    and "(p2, k2) \<in> set (key_log cs OpenALAudio_ctor)"
  shows "(p1 \<noteq> p2 \<longrightarrow> k1 \<noteq> k2) \<and>
         (p1 = p2 \<and> p1 \<noteq> [] \<and> \<not> frees k1 cs \<and> \<not> frees k2 cs \<longrightarrow> k1 = k2)"
proof (intro conjI impI)
  note l = log_okD[OF reachable_inv(2)[OF assms(1)]]
  show "k1 \<noteq> k2" if "p1 \<noteq> p2"
    using l(4)[of p1 k1 p2] assms(2,3) that by auto
  show "k1 = k2" if a: "p1 = p2 \<and> p1 \<noteq> [] \<and> \<not> frees k1 cs \<and> \<not> frees k2 cs"
  proof -
    let ?m = "m_AudioKeyToPath (run cs OpenALAudio_ctor)"
    have 1: "(k1, p1) \<in> set ?m" using l(5)[of p1 k1] assms(2) a by auto
    have 2: "(k2, p1) \<in> set ?m" using l(5)[of p2 k2] assms(3) a by auto
    have "inj_on snd (set ?m)"
      using table_okD(2)[OF reachable_inv(1)[OF assms(1)]] by (simp add: distinct_map)
    from inj_onD[OF this _ 1 2] show ?thesis by simp
  qed
qed

theorem keys_distinct_and_stable_until_freed_witness:
  "length free_other_key < 2 ^ 32 - 1 \<and>
   key_log free_other_key OpenALAudio_ctor =
     [(''a.wav'', 1), (''b.wav'', 2), (''a.wav'', 1), (''b.wav'', 3)] \<and>
   \<not> frees 1 free_other_key \<and> frees 2 free_other_key \<and>
   (''a.wav'', 2) \<notin> set (key_log free_other_key OpenALAudio_ctor) \<and>
   (''a.wav'', 3) \<notin> set (key_log free_other_key OpenALAudio_ctor)"
  using keys_distinct_and_stable_until_freed[OF free_other_key_frees(3),
      of "''a.wav''" 1 "''b.wav''" 2]
    keys_distinct_and_stable_until_freed[OF free_other_key_frees(3),
      of "''a.wav''" 1 "''a.wav''" 1]
    free_other_key_frees
  by (simp add: free_other_key_log)

text \<open>
  Freeing a key erases its entry of the key table, so the next lookup of the path, once
  another lookup has replaced the cached pair, takes a fresh key: \<^verbatim>\<open>a.wav\<close> has key 1
  before \<^verbatim>\<open>FreeMusicByKey(1)\<close> and key 3 after it. Once the counter has wrapped, two
  different paths have key 1. And the empty path has key 0 as long as the cached pair
  is the constructor's, and a fresh key afterwards.
\<close>

theorem key_changes_after_free:
  "key_log replay_after_free OpenALAudio_ctor =
     [(''a.wav'', 1), (''b.wav'', 2), (''a.wav'', 3)] \<and>
   frees 1 replay_after_free \<and>
   (''a'', 1) \<in> set (key_log (lookups wrap_count) OpenALAudio_ctor) \<and>
   (replicate wrap_count (CHR ''a''), 1) \<in> set (key_log (lookups wrap_count) OpenALAudio_ctor) \<and>
   length (replicate wrap_count (CHR ''a'')) = 2 ^ 32 + 1 \<and>
   key_log empty_path_lookups OpenALAudio_ctor = [([], 0), (''b.wav'', 1), ([], 2)]"
proof -
  let ?f = "\<lambda>i. (replicate i (CHR ''a''), of_nat i :: 32 word)"
  have lg: "key_log (lookups wrap_count) OpenALAudio_ctor = map ?f [1..<Suc wrap_count]"
    using lookups_state[of wrap_count] by simp
  have big: "1 < wrap_count" by (simp add: wrap_count_def)
  have m1: "(1::nat) \<in> set [1..<Suc wrap_count]" and m2: "wrap_count \<in> set [1..<Suc wrap_count]"
    using big by simp_all
  have "?f 1 \<in> ?f ` set [1..<Suc wrap_count]" using m1 by (rule imageI)
  then have a: "(''a'', 1) \<in> set (map ?f [1..<Suc wrap_count])" by simp
  have "?f wrap_count \<in> ?f ` set [1..<Suc wrap_count]" using m2 by (rule imageI)
  then have b: "(replicate wrap_count (CHR ''a''), 1) \<in> set (map ?f [1..<Suc wrap_count])"
    by (simp add: wrap_to_one)
  have c: "length (replicate wrap_count (CHR ''a'')) = 2 ^ 32 + 1" by (simp add: wrap_count_def)
  have d: "frees 1 replay_after_free" by (simp add: replay_after_free_def frees_def)
  from replay_after_free_log d a b c empty_path_lookups_log
  show ?thesis unfolding lg by (intro conjI)
qed






end
